theory Spec2Isabelle
  imports Complex_Main "HOL-Library.Log_Nat"
begin

section \<open>JavaScript values used by counterAnimator.js\<close>

text \<open>
  A JavaScript Number is modelled as one of the three non-finite values or a finite
  value carried as a rational. A finite value stands for the double nearest to it
  (\<open>toDouble\<close> below): parsing and the four arithmetic operations keep the exact
  value, and the operations of the formatting path, \<open>toFixed\<close>, \<open>Math.round\<close> and
  \<open>toString\<close>, read their argument as that double and return what the code returns for
  it. Overflow to Infinity lies outside the model. Negative zero and zero are one value;
  the library reads its numbers only through comparisons and through the printers below,
  which do not tell the two apart, and a zero divisor is taken as positive zero.
\<close>

datatype number = NaN | PosInf | NegInf | Fin rat

text \<open>
  Binary64 rounding, to nearest with a tie going to the even significand. The unit in
  the last place of a positive value \<open>a\<close> is \<open>2\<close> to the power
  \<open>ulpExponent a\<close>: 52 below the binary exponent of \<open>a\<close>, and never below
  \<open>-1074\<close>, the spacing of the subnormal numbers.
\<close>

definition ulpExponent :: "rat \<Rightarrow> int" where
  "ulpExponent a =
     (let t = bitlen (fst (quotient_of a)) - bitlen (snd (quotient_of a));
          e = (if 2 powi t \<le> a then t else t - 1)
      in max (e - 52) (- 1074))"

definition roundHalfEven :: "rat \<Rightarrow> int" where
  "roundHalfEven y =
     (let f = \<lfloor>y\<rfloor>; d = y - of_int f
      in if d < 1 / 2 then f
         else if 1 / 2 < d then f + 1
         else if even f then f else f + 1)"

definition toDouble :: "rat \<Rightarrow> rat" where
  "toDouble x =
     (if x = 0 then 0
      else sgn x * of_int (roundHalfEven (\<bar>x\<bar> / 2 powi ulpExponent \<bar>x\<bar>))
           * 2 powi ulpExponent \<bar>x\<bar>)"

text \<open>The values a double can hold, the upper bound of the exponent left out.\<close>

definition isDouble :: "rat \<Rightarrow> bool" where
  "isDouble y = (\<exists>m e. y = of_int m * 2 powi e \<and> \<bar>m\<bar> < 2 ^ 53 \<and> - 1074 \<le> e)"

datatype error = TypeError | RangeError

fun jsNeg :: "number \<Rightarrow> number" where
  "jsNeg NaN = NaN"
| "jsNeg PosInf = NegInf"
| "jsNeg NegInf = PosInf"
| "jsNeg (Fin x) = Fin (- x)"

fun jsAdd :: "number \<Rightarrow> number \<Rightarrow> number" where
  "jsAdd NaN _ = NaN"
| "jsAdd _ NaN = NaN"
| "jsAdd PosInf NegInf = NaN"
| "jsAdd NegInf PosInf = NaN"
| "jsAdd PosInf _ = PosInf"
| "jsAdd NegInf _ = NegInf"
| "jsAdd _ PosInf = PosInf"
| "jsAdd _ NegInf = NegInf"
| "jsAdd (Fin x) (Fin y) = Fin (x + y)"

definition jsSub :: "number \<Rightarrow> number \<Rightarrow> number" where
  "jsSub a b = jsAdd a (jsNeg b)"

text \<open>The sign of a number that is not NaN, as \<open>-1\<close>, \<open>0\<close> or \<open>1\<close>.\<close>

fun jsSgn :: "number \<Rightarrow> rat" where
  "jsSgn NaN = 0"
| "jsSgn PosInf = 1"
| "jsSgn NegInf = - 1"
| "jsSgn (Fin x) = sgn x"

definition infOfSign :: "rat \<Rightarrow> number" where
  "infOfSign s = (if s = 0 then NaN else if 0 < s then PosInf else NegInf)"

fun jsMul :: "number \<Rightarrow> number \<Rightarrow> number" where
  "jsMul NaN _ = NaN"
| "jsMul _ NaN = NaN"
| "jsMul (Fin x) (Fin y) = Fin (x * y)"
| "jsMul a b = infOfSign (jsSgn a * jsSgn b)"

fun jsDiv :: "number \<Rightarrow> number \<Rightarrow> number" where
  "jsDiv NaN _ = NaN"
| "jsDiv _ NaN = NaN"
| "jsDiv (Fin x) (Fin y) = (if y = 0 then infOfSign (sgn x) else Fin (x / y))"
| "jsDiv (Fin x) _ = Fin 0"
| "jsDiv a (Fin y) = infOfSign (jsSgn a * (if y < 0 then - 1 else 1))"
| "jsDiv _ _ = NaN"

fun jsLess :: "number \<Rightarrow> number \<Rightarrow> bool" where
  "jsLess NaN _ = False"
| "jsLess _ NaN = False"
| "jsLess (Fin x) (Fin y) = (x < y)"
| "jsLess PosInf _ = False"
| "jsLess _ PosInf = True"
| "jsLess NegInf NegInf = False"
| "jsLess NegInf _ = True"
| "jsLess _ NegInf = False"

definition isFinite :: "number \<Rightarrow> bool" where
  "isFinite v = (case v of Fin _ \<Rightarrow> True | _ \<Rightarrow> False)"

text \<open>\<open>a >= b\<close>: false as soon as one side is NaN.\<close>

definition jsGe :: "number \<Rightarrow> number \<Rightarrow> bool" where
  "jsGe a b = (a \<noteq> NaN \<and> b \<noteq> NaN \<and> \<not> jsLess a b)"

text \<open>\<open>Math.min\<close> of two arguments, \<open>Math.abs\<close>, \<open>Math.floor\<close> and \<open>Math.round\<close>
  (which rounds the double it is given, a tie going towards positive infinity).\<close>

definition Math_min :: "number \<Rightarrow> number \<Rightarrow> number" where
  "Math_min a b = (if a = NaN \<or> b = NaN then NaN else if jsLess b a then b else a)"

fun Math_abs :: "number \<Rightarrow> number" where
  "Math_abs NaN = NaN"
| "Math_abs PosInf = PosInf"
| "Math_abs NegInf = PosInf"
| "Math_abs (Fin x) = Fin \<bar>x\<bar>"

fun Math_floor :: "number \<Rightarrow> number" where
  "Math_floor (Fin x) = Fin (of_int \<lfloor>x\<rfloor>)"
| "Math_floor v = v"

fun Math_round :: "number \<Rightarrow> number" where
  "Math_round (Fin x) = Fin (of_int \<lfloor>toDouble x + 1 / 2\<rfloor>)"
| "Math_round v = v"

text \<open>\<open>v || 0\<close> on a number: NaN and zero are falsy.\<close>

definition orZero :: "number \<Rightarrow> number" where
  "orZero v = (if v = NaN \<or> v = Fin 0 then Fin 0 else v)"

section \<open>Strings\<close>

text \<open>
  Strings are lists of 8-bit characters. The library looks only at ASCII digits, the
  two separators, the minus sign and white space; every other character is dropped or
  copied unread, so its encoding does not matter.
\<close>

definition isDigit :: "char \<Rightarrow> bool" where
  "isDigit c = (c \<in> set ''0123456789'')"

definition digitVal :: "char \<Rightarrow> int" where
  "digitVal c = of_char c - 48"

definition digitsVal :: "string \<Rightarrow> int" where
  "digitsVal ds = foldl (\<lambda>a c. 10 * a + digitVal c) 0 ds"

definition isSpace :: "char \<Rightarrow> bool" where
  "isSpace c = (c \<in> set [CHR '' '', CHR 0x09, CHR 0x0A, CHR 0x0B, CHR 0x0C, CHR 0x0D])"

text \<open>\<open>String.prototype.trim\<close>.\<close>

definition trim :: "string \<Rightarrow> string" where
  "trim s = rev (dropWhile isSpace (rev (dropWhile isSpace s)))"

text \<open>\<open>s.split(c)\<close> for a one-character separator: the segments between the
  occurrences of \<open>c\<close>, one more than there are occurrences.\<close>

fun split_str :: "char \<Rightarrow> string \<Rightarrow> string list" where
  "split_str c [] = [[]]"
| "split_str c (x # xs) =
     (if x = c then [] # split_str c xs
      else (case split_str c xs of [] \<Rightarrow> [[x]] | p # ps \<Rightarrow> (x # p) # ps))"

text \<open>\<open>s.lastIndexOf(needle)\<close>: the greatest position at which \<open>needle\<close> starts,
  or \<open>-1\<close>.\<close>

fun lastIndexOfFrom :: "nat \<Rightarrow> string \<Rightarrow> string \<Rightarrow> int" where
  "lastIndexOfFrom i needle [] = (if needle = [] then int i else - 1)"
| "lastIndexOfFrom i needle (c # cs) =
     (let r = lastIndexOfFrom (Suc i) needle cs
      in if 0 \<le> r then r
         else if take (length needle) (c # cs) = needle then int i else - 1)"

definition lastIndexOf :: "string \<Rightarrow> string \<Rightarrow> int" where
  "lastIndexOf s needle = lastIndexOfFrom 0 needle s"

text \<open>\<open>s.substring(a, b)\<close> and \<open>s.substring(a)\<close>: arguments are clamped to the
  string and swapped when out of order.\<close>

definition substring :: "string \<Rightarrow> int \<Rightarrow> int \<Rightarrow> string" where
  "substring s a b =
     (let a' = min (nat a) (length s); b' = min (nat b) (length s);
          lo = min a' b'; hi = max a' b'
      in take (hi - lo) (drop lo s))"

definition substringFrom :: "string \<Rightarrow> int \<Rightarrow> string" where
  "substringFrom s a = drop (nat a) s"

text \<open>\<open>s.replace(/c/g, '')\<close> for a one-character pattern.\<close>

definition removeAll_char :: "char \<Rightarrow> string \<Rightarrow> string" where
  "removeAll_char c s = filter (\<lambda>x. x \<noteq> c) s"

text \<open>\<open>s.replace(c, r)\<close> with a string pattern: the first occurrence only.\<close>

fun replaceFirst :: "char \<Rightarrow> char \<Rightarrow> string \<Rightarrow> string" where
  "replaceFirst c r [] = []"
| "replaceFirst c r (x # xs) = (if x = c then r # xs else x # replaceFirst c r xs)"

section \<open>parseFloat\<close>

text \<open>
  \<open>parseFloat\<close> skips leading white space and reads the longest prefix that is a
  decimal literal: an optional sign, then \<open>Infinity\<close>, or digits with an optional
  fraction and an optional exponent. Without such a prefix the result is NaN. The value
  is the decimal the literal denotes.
\<close>

definition exponentPart :: "string \<Rightarrow> int" where
  "exponentPart s =
     (case s of
        [] \<Rightarrow> 0
      | e # r \<Rightarrow>
          if e = CHR ''e'' \<or> e = CHR ''E'' then
            (case r of
               [] \<Rightarrow> 0
             | g # r' \<Rightarrow>
                 if g = CHR ''-'' then
                   - digitsVal (takeWhile isDigit r')
                 else if g = CHR ''+'' then digitsVal (takeWhile isDigit r')
                 else digitsVal (takeWhile isDigit r))
          else 0)"

definition scale10 :: "rat \<Rightarrow> int \<Rightarrow> rat" where
  "scale10 m e = (if 0 \<le> e then m * 10 ^ nat e else m / 10 ^ nat (- e))"

definition unsignedLiteral :: "string \<Rightarrow> rat option" where
  "unsignedLiteral u =
     (let ip = takeWhile isDigit u;
          r1 = dropWhile isDigit u;
          hasDot = (r1 \<noteq> [] \<and> hd r1 = CHR ''.'');
          fp = (if hasDot then takeWhile isDigit (tl r1) else []);
          r2 = (if hasDot then dropWhile isDigit (tl r1) else r1)
      in if ip = [] \<and> fp = [] then None
         else Some (scale10 (of_int (digitsVal ip) + of_int (digitsVal fp) / 10 ^ length fp)
                      (exponentPart r2)))"

definition literalValue :: "bool \<Rightarrow> string \<Rightarrow> number" where
  "literalValue neg u =
     (if take 8 u = ''Infinity'' then (if neg then NegInf else PosInf)
      else (case unsignedLiteral u of
              None \<Rightarrow> NaN
            | Some m \<Rightarrow> Fin (if neg then - m else m)))"

definition parseFloat :: "string \<Rightarrow> number" where
  "parseFloat s =
     (let t = dropWhile isSpace s
      in if t \<noteq> [] \<and> hd t = CHR ''-'' then literalValue True (tl t)
         else if t \<noteq> [] \<and> hd t = CHR ''+'' then literalValue False (tl t)
         else literalValue False t)"

section \<open>Configuration\<close>

text \<open>
  The \<open>numberFormat\<close> object. \<open>abbreviations\<close> and \<open>inputDecimalSeparator\<close> are
  optional because the preset formats of \<open>getPresetFormats\<close> do not carry them, and a
  format given in the options replaces the default one as a whole. \<open>decimals\<close> is a
  natural number. The fields \<open>style\<close> and \<open>locale\<close> are never read and are left out.
\<close>

record numberFormat =
  thousandsSeparator :: string
  decimalSeparator :: string
  decimals :: nat
  showDecimals :: bool
  abbreviate :: bool
  abbreviations :: "(string \<rightharpoonup> string) option"
  inputDecimalSeparator :: "string option"
  smartDetection :: bool

text \<open>
  The configuration object as far as parsing, formatting and the animation frame read
  it. The three callbacks are kept as flags saying whether one is installed; the fields
  of the page wiring (\<open>selector\<close>, \<open>delay\<close>, \<open>separator\<close>, \<open>observerOptions\<close>,
  \<open>autoStart\<close>) are left out.
\<close>

record config =
  duration :: number
  effect :: string
  startValue :: number
  formatNumber :: bool
  numberFormat :: numberFormat
  prefix :: string
  suffix :: string
  onStart :: bool
  onUpdate :: bool
  onComplete :: bool
  triggerOnce :: bool

definition defaultAbbreviations :: "string \<rightharpoonup> string" where
  "defaultAbbreviations =
     [''thousand'' \<mapsto> ''K'', ''million'' \<mapsto> ''M'', ''billion'' \<mapsto> ''B'', ''trillion'' \<mapsto> ''T'']"

definition defaultNumberFormat :: numberFormat where
  "defaultNumberFormat =
     \<lparr> thousandsSeparator = '' '', decimalSeparator = '','', decimals = 0,
       showDecimals = False, abbreviate = False,
       abbreviations = Some defaultAbbreviations,
       inputDecimalSeparator = Some ''auto'', smartDetection = True \<rparr>"

definition defaults :: config where
  "defaults =
     \<lparr> duration = Fin 2000, effect = ''easeOutCubic'', startValue = Fin 0,
       formatNumber = True, numberFormat = defaultNumberFormat,
       prefix = [], suffix = [],
       onStart = False, onUpdate = False, onComplete = False, triggerOnce = True \<rparr>"

section \<open>Number parsing\<close>

definition parseWithCommaSeparator :: "string \<Rightarrow> number" where
  "parseWithCommaSeparator text =
     (let commaCount = count_list text CHR '',''
      in if commaCount = 1 then
           (let parts = split_str CHR '','' text;
                beforeComma = parts ! 0;
                afterComma = parts ! 1
            in if length afterComma \<le> 2 \<and> length beforeComma \<le> 3
                 then parseFloat (beforeComma @ ''.'' @ afterComma)
               else if length afterComma = 3
                 then parseFloat (beforeComma @ afterComma)
               else if length afterComma \<le> 2
                 then parseFloat (beforeComma @ ''.'' @ afterComma)
               else parseFloat (removeAll_char CHR '','' text))
         else parseFloat (removeAll_char CHR '','' text))"

definition parseWithDotSeparator :: "string \<Rightarrow> number" where
  "parseWithDotSeparator text =
     (let dotCount = count_list text CHR ''.''
      in if dotCount = 1 then
           (let parts = split_str CHR ''.'' text;
                beforeDot = parts ! 0;
                afterDot = parts ! 1
            in if length afterDot \<le> 2 \<and> length beforeDot \<le> 3 then parseFloat text
               else if length afterDot = 3 then parseFloat (beforeDot @ afterDot)
               else parseFloat text)
         else
           (let lastDotIndex = lastIndexOf text ''.'';
                beforeLastDot = removeAll_char CHR ''.'' (substring text 0 lastDotIndex);
                afterLastDot = substringFrom text (lastDotIndex + 1)
            in if length afterLastDot \<le> 2
                 then parseFloat (beforeLastDot @ ''.'' @ afterLastDot)
               else parseFloat (removeAll_char CHR ''.'' text)))"

definition parseWithMixedSeparators :: "string \<Rightarrow> number" where
  "parseWithMixedSeparators text =
     (let lastCommaIndex = lastIndexOf text '','';
          lastDotIndex = lastIndexOf text ''.''
      in if lastDotIndex < lastCommaIndex then
           (let beforeComma = removeAll_char CHR ''.'' (substring text 0 lastCommaIndex);
                afterComma = substringFrom text (lastCommaIndex + 1)
            in parseFloat (beforeComma @ ''.'' @ afterComma))
         else
           (let beforeDot = removeAll_char CHR '','' (substring text 0 lastDotIndex);
                afterDot = substringFrom text (lastDotIndex + 1)
            in parseFloat (beforeDot @ ''.'' @ afterDot)))"

text \<open>The characters kept by \<open>text.replace(/[^\d.,-]/g, '')\<close>.\<close>

definition keptChar :: "char \<Rightarrow> bool" where
  "keptChar c = (isDigit c \<or> c = CHR ''.'' \<or> c = CHR '','' \<or> c = CHR ''-'')"

definition smartNumberDetection :: "string \<Rightarrow> number" where
  "smartNumberDetection text =
     (let cleanText = filter keptChar text
      in if CHR ''.'' \<notin> set cleanText \<and> CHR '','' \<notin> set cleanText
           then orZero (parseFloat cleanText)
         else
           (let commaCount = count_list cleanText CHR '','';
                dotCount = count_list cleanText CHR ''.''
            in if 0 < commaCount \<and> dotCount = 0 then parseWithCommaSeparator cleanText
               else if 0 < dotCount \<and> commaCount = 0 then parseWithDotSeparator cleanText
               else if 0 < commaCount \<and> 0 < dotCount then parseWithMixedSeparators cleanText
               else Fin 0))"

text \<open>The thousands separator is the separator that is not the decimal one; the
  decimal part starts one character after the last decimal separator.\<close>

definition parseNumberWithKnownFormat :: "string \<Rightarrow> string \<Rightarrow> number" where
  "parseNumberWithKnownFormat text decimalSep =
     (let thousandsSep = (if decimalSep = '','' then CHR ''.'' else CHR '','');
          lastDecimalIndex = lastIndexOf text decimalSep
      in if lastDecimalIndex = - 1 then parseFloat (removeAll_char thousandsSep text)
         else
           (let integerPart = removeAll_char thousandsSep (substring text 0 lastDecimalIndex);
                decimalPart = substringFrom text (lastDecimalIndex + 1)
            in parseFloat (integerPart @ ''.'' @ decimalPart)))"

text \<open>The leftmost match of \<open>/-?\d+([.,]\d+)?/\<close>, if any.\<close>

definition matchNumberAt :: "string \<Rightarrow> string" where
  "matchNumberAt s =
     (let ds = takeWhile isDigit s; r = dropWhile isDigit s
      in case r of
           [] \<Rightarrow> ds
         | sep # r' \<Rightarrow>
             if (sep = CHR ''.'' \<or> sep = CHR '','') \<and> takeWhile isDigit r' \<noteq> []
               then ds @ sep # takeWhile isDigit r'
             else ds)"

fun matchNumber :: "string \<Rightarrow> string option" where
  "matchNumber [] = None"
| "matchNumber (c # cs) =
     (if isDigit c then Some (matchNumberAt (c # cs))
      else if c = CHR ''-'' \<and> takeWhile isDigit cs \<noteq> [] then Some (c # matchNumberAt cs)
      else matchNumber cs)"

text \<open>An absent \<open>inputDecimalSeparator\<close> is \<open>undefined\<close>, which differs from
  \<open>'auto'\<close> and is searched for as the text \<open>undefined\<close>.\<close>

definition extractNumber :: "config \<Rightarrow> string \<Rightarrow> number" where
  "extractNumber this_config text =
     (let cleanText = trim text; config = numberFormat this_config
      in if inputDecimalSeparator config \<noteq> Some ''auto'' then
           parseNumberWithKnownFormat cleanText
             (case inputDecimalSeparator config of None \<Rightarrow> ''undefined'' | Some d \<Rightarrow> d)
         else if smartDetection config then smartNumberDetection cleanText
         else (case matchNumber cleanText of
                 None \<Rightarrow> Fin 0
               | Some m \<Rightarrow> parseFloat (replaceFirst CHR '','' CHR ''.'' m)))"

section \<open>Printing numbers\<close>

definition digitChar :: "int \<Rightarrow> char" where
  "digitChar d = ''0123456789'' ! nat (d mod 10)"

text \<open>The decimal digits of a non-negative integer.\<close>

function natDigits :: "int \<Rightarrow> string" where
  "natDigits n = (if n < 10 then [digitChar n] else natDigits (n div 10) @ [digitChar (n mod 10)])"
  by pat_completeness auto
termination
  by (relation "measure nat") auto

declare natDigits.simps [simp del]

text \<open>The digits of a fraction \<open>0 \<le> r < 1\<close>, at most as many as the first argument.\<close>

fun fracDigits :: "nat \<Rightarrow> rat \<Rightarrow> string" where
  "fracDigits 0 r = []"
| "fracDigits (Suc k) r =
     (if r = 0 then []
      else digitChar \<lfloor>r * 10\<rfloor> # fracDigits k (r * 10 - of_int \<lfloor>r * 10\<rfloor>))"

definition stripTrailingZeros :: "string \<Rightarrow> string" where
  "stripTrailingZeros ds = rev (dropWhile (\<lambda>c. c = CHR ''0'') (rev ds))"

text \<open>
  A non-negative decimal in positional notation: the integer digits and, when the
  fraction is not zero, a point and the fraction digits. The decimals printed here have
  at most 17 significant digits and, in positional notation, are not below \<open>1e-6\<close>,
  which is never more than 22 digits after the point.
\<close>

definition plainDecimal :: "rat \<Rightarrow> string" where
  "plainDecimal x =
     (let f = stripTrailingZeros (fracDigits 22 (x - of_int \<lfloor>x\<rfloor>))
      in natDigits \<lfloor>x\<rfloor> @ (if f = [] then [] else CHR ''.'' # f))"

text \<open>
  The decimal that \<open>Number.prototype.toString\<close> prints for a positive double \<open>x\<close>:
  among the decimals that read back as \<open>x\<close>, one with the fewest significant digits;
  among several of these the one nearest to \<open>x\<close>; of two equally near, the one whose
  digits form an even number. \<open>shortestFrom x j\<close> tries the two multiples of
  \<open>10^j\<close> around \<open>x\<close> and goes on to \<open>j - 1\<close> when neither reads back as
  \<open>x\<close>; the search starts above the leading digit of \<open>x\<close>. A double is a multiple
  of \<open>2^-1074\<close>, hence of \<open>10^-1074\<close>, and the search stops there at the latest.
\<close>

function shortestFrom :: "rat \<Rightarrow> int \<Rightarrow> rat" where
  "shortestFrom x j =
     (let q = 10 powi j;
          s = \<lfloor>x / q\<rfloor>;
          lo = of_int s * q;
          hi = of_int (s + 1) * q;
          okLo = (toDouble lo = x);
          okHi = (toDouble hi = x)
      in if okLo \<and> (\<not> okHi \<or> x - lo < hi - x \<or> (x - lo = hi - x \<and> even s)) then lo
         else if okHi then hi
         else if j \<le> - 1074 then x
         else shortestFrom x (j - 1))"
  by pat_completeness auto
termination
  by (relation "measure (\<lambda>(x, j). nat (j + 1074))") auto

declare shortestFrom.simps [simp del]

definition shortestDecimal :: "rat \<Rightarrow> rat" where
  "shortestDecimal x = shortestFrom x (int (length (natDigits \<lfloor>x\<rfloor>)))"

text \<open>
  The layout of \<open>Number.prototype.toString\<close> for the decimal to print: positional
  notation from \<open>1e-6\<close> up to, and excluding, \<open>1e21\<close>, and exponent notation (one
  digit before the point) outside.
\<close>

definition positiveToString :: "rat \<Rightarrow> string" where
  "positiveToString x =
     (if 10 ^ 21 \<le> x then
        (let e = length (natDigits \<lfloor>x\<rfloor>) - 1
         in plainDecimal (x / 10 ^ e) @ ''e+'' @ natDigits (int e))
      else if x < 1 / 10 ^ 6 then
        (let n = length (natDigits \<lfloor>1 / x\<rfloor>);
             k = (if 1 \<le> x * 10 ^ (n - 1) then n - 1 else n)
         in plainDecimal (x * 10 ^ k) @ ''e-'' @ natDigits (int k))
      else plainDecimal x)"

text \<open>\<open>Number.prototype.toString\<close>, of the double that the value stands for.\<close>

fun toString :: "number \<Rightarrow> string" where
  "toString NaN = ''NaN''"
| "toString PosInf = ''Infinity''"
| "toString NegInf = ''-Infinity''"
| "toString (Fin x) =
     (let v = toDouble x
      in if v = 0 then ''0''
         else if v < 0 then CHR ''-'' # positiveToString (shortestDecimal (- v))
         else positiveToString (shortestDecimal v))"

text \<open>
  \<open>Number(value.toFixed(d))\<close>. \<open>toFixed\<close> throws a RangeError unless
  \<open>0 \<le> d \<le> 100\<close>. It prints a non-finite value, and a double from \<open>1e21\<close> on,
  as \<open>toString\<close> does, and \<open>Number\<close> reads that double back. Any other double it
  prints rounded to \<open>d\<close> places, computed on the exact value of the double, a tie going
  away from zero; \<open>Number\<close> reads the printed decimal into the double nearest to it.
\<close>

definition toFixedNumber :: "number \<Rightarrow> nat \<Rightarrow> error + number" where
  "toFixedNumber value d =
     (if 100 < d then Inl RangeError
      else Inr (case value of
                  Fin x \<Rightarrow>
                    (let v = toDouble x
                     in if 10 ^ 21 \<le> \<bar>v\<bar> then Fin v
                        else Fin (toDouble
                                    (sgn v * of_int \<lfloor>\<bar>v\<bar> * 10 ^ d + 1 / 2\<rfloor> / 10 ^ d)))
                | w \<Rightarrow> w))"

section \<open>Formatting\<close>

definition isWordChar :: "char \<Rightarrow> bool" where
  "isWordChar c =
     (isDigit c \<or> c = CHR ''_''
      \<or> c \<in> set ''abcdefghijklmnopqrstuvwxyz''
      \<or> c \<in> set ''ABCDEFGHIJKLMNOPQRSTUVWXYZ'')"

text \<open>
  \<open>cleanNumber.replace(/\B(?=(\d{3})+(?!\d))/g, separator)\<close>: the separator goes in
  front of every character that follows a word character and starts a run of digits
  whose length is a positive multiple of three. The flag says whether the character
  before the current position is a word character. The separator is taken to be free
  of the \<open>$\<close> patterns that \<open>replace\<close> would expand.
\<close>

fun insertSeparators :: "string \<Rightarrow> bool \<Rightarrow> string \<Rightarrow> string" where
  "insertSeparators sep prev [] = []"
| "insertSeparators sep prev (c # cs) =
     (if prev \<and> 0 < length (takeWhile isDigit (c # cs))
            \<and> length (takeWhile isDigit (c # cs)) mod 3 = 0
        then sep else [])
     @ c # insertSeparators sep (isWordChar c) cs"

definition addThousandsSeparator :: "string \<Rightarrow> string \<Rightarrow> string" where
  "addThousandsSeparator numberString separator =
     (let isNegative = (numberString \<noteq> [] \<and> hd numberString = CHR ''-'');
          cleanNumber = (if isNegative then tl numberString else numberString);
          formatted = insertSeparators separator False cleanNumber
      in if isNegative then CHR ''-'' # formatted else formatted)"

text \<open>An array element that may be missing, and the truth value of a string that may
  be \<open>undefined\<close>.\<close>

definition nth_opt :: "'a list \<Rightarrow> nat \<Rightarrow> 'a option" where
  "nth_opt xs i = (if i < length xs then Some (xs ! i) else None)"

definition truthy :: "string option \<Rightarrow> bool" where
  "truthy d = (case d of None \<Rightarrow> False | Some t \<Rightarrow> t \<noteq> [])"

definition padEnd :: "string \<Rightarrow> nat \<Rightarrow> char \<Rightarrow> string" where
  "padEnd t n c = t @ replicate (n - length t) c"

text \<open>The first step of \<open>formatCustomNumber\<close>: the value of its variable
  \<open>rounded\<close>.\<close>

definition roundedValue :: "number \<Rightarrow> numberFormat \<Rightarrow> error + number" where
  "roundedValue value format =
     (if 0 < decimals format \<or> showDecimals format
        then toFixedNumber value (decimals format)
      else Inr (Math_round value))"

definition formatCustomNumber :: "number \<Rightarrow> numberFormat \<Rightarrow> error + string" where
  "formatCustomNumber value format =
     (case roundedValue value format of
        Inl e \<Rightarrow> Inl e
      | Inr rounded \<Rightarrow>
          (let parts = split_str CHR ''.'' (toString rounded);
               decimalPart = nth_opt parts 1;
               integerPart =
                 (if jsGe (Math_abs rounded) (Fin 1000) \<and> thousandsSeparator format \<noteq> []
                    then addThousandsSeparator (hd parts) (thousandsSeparator format)
                  else hd parts)
           in Inr (if showDecimals format \<or> (0 < decimals format \<and> truthy decimalPart) then
                     (let decimal = (case decimalPart of
                                       None \<Rightarrow> replicate (decimals format) CHR ''0''
                                     | Some t \<Rightarrow>
                                         if t = [] then replicate (decimals format) CHR ''0'' else t);
                          paddedDecimal = padEnd decimal (decimals format) CHR ''0''
                      in integerPart @ decimalSeparator format @ paddedDecimal)
                   else integerPart)))"

text \<open>
  One tier of \<open>abbreviateNumber\<close>: the value, not its absolute value, is divided and
  formatted with one forced decimal; the sign text goes in front and the suffix of the
  tier behind. Reading the suffix throws a TypeError when the format has no
  \<open>abbreviations\<close> object, and gives \<open>undefined\<close> when that object lacks the key.
\<close>

definition abbreviateTier :: "number \<Rightarrow> numberFormat \<Rightarrow> string \<Rightarrow> rat \<Rightarrow> string \<Rightarrow> error + string" where
  "abbreviateTier value format sign magnitude key =
     (let abbreviated = jsDiv value (Fin magnitude)
      in case formatCustomNumber abbreviated (format\<lparr>showDecimals := True, decimals := 1\<rparr>) of
           Inl e \<Rightarrow> Inl e
         | Inr t \<Rightarrow>
             (case abbreviations format of
                None \<Rightarrow> Inl TypeError
              | Some m \<Rightarrow>
                  Inr (sign @ t @ (case m key of None \<Rightarrow> ''undefined'' | Some suf \<Rightarrow> suf))))"

definition abbreviateNumber :: "number \<Rightarrow> numberFormat \<Rightarrow> error + string" where
  "abbreviateNumber value format =
     (let abs = Math_abs value;
          sign = (if jsLess value (Fin 0) then ''-'' else [])
      in if jsGe abs (Fin 1000000000000)
           then abbreviateTier value format sign 1000000000000 ''trillion''
         else if jsGe abs (Fin 1000000000)
           then abbreviateTier value format sign 1000000000 ''billion''
         else if jsGe abs (Fin 1000000)
           then abbreviateTier value format sign 1000000 ''million''
         else if jsGe abs (Fin 1000)
           then abbreviateTier value format sign 1000 ''thousand''
         else formatCustomNumber value format)"

definition formatValue :: "number \<Rightarrow> config \<Rightarrow> error + string" where
  "formatValue value config =
     (let format = numberFormat config
      in if \<not> formatNumber config then Inr (toString (Math_round value))
         else if abbreviate format then abbreviateNumber value format
         else formatCustomNumber value format)"

text \<open>The nine presets. A preset has the five fields below and nothing else.\<close>

definition preset :: "string \<Rightarrow> string \<Rightarrow> nat \<Rightarrow> bool \<Rightarrow> bool \<Rightarrow> numberFormat" where
  "preset ts ds d sd ab =
     \<lparr> thousandsSeparator = ts, decimalSeparator = ds, decimals = d, showDecimals = sd,
       abbreviate = ab, abbreviations = None, inputDecimalSeparator = None,
       smartDetection = False \<rparr>"

definition presetList :: "(string \<times> numberFormat) list" where
  "presetList =
     [(''pt-ao'', preset '' '' '','' 0 False False),
      (''currency-ao'', preset '' '' '','' 2 True False),
      (''en-us'', preset '','' ''.'' 0 False False),
      (''currency-us'', preset '','' ''.'' 2 True False),
      (''pt-br'', preset ''.'' '','' 0 False False),
      (''currency-br'', preset ''.'' '','' 2 True False),
      (''eu'', preset ''.'' '','' 0 False False),
      (''abbreviated'', preset '' '' '','' 1 False True),
      (''percentage'', preset '' '' '','' 1 True False)]"


section \<open>Construction\<close>

text \<open>
  The options object given to the constructor: each key may be missing. The constructor
  builds \<open>this.config\<close> as \<open>{...this.defaults, ...options}\<close>, a key-by-key override
  in which a given \<open>numberFormat\<close> replaces the default format as a whole. Nothing is
  checked, so the construction has no failing branch; the result type keeps the place
  where a rejection would be.
\<close>

record options =
  duration_opt :: "number option"
  effect_opt :: "string option"
  startValue_opt :: "number option"
  formatNumber_opt :: "bool option"
  numberFormat_opt :: "numberFormat option"
  prefix_opt :: "string option"
  suffix_opt :: "string option"
  onStart_opt :: "bool option"
  onUpdate_opt :: "bool option"
  onComplete_opt :: "bool option"
  triggerOnce_opt :: "bool option"

definition noOptions :: options where
  "noOptions =
     \<lparr> duration_opt = None, effect_opt = None, startValue_opt = None,
       formatNumber_opt = None, numberFormat_opt = None, prefix_opt = None,
       suffix_opt = None, onStart_opt = None, onUpdate_opt = None, onComplete_opt = None,
       triggerOnce_opt = None \<rparr>"

definition override :: "'a \<Rightarrow> 'a option \<Rightarrow> 'a" where
  "override d v = (case v of None \<Rightarrow> d | Some x \<Rightarrow> x)"

definition mergeConfig :: "config \<Rightarrow> options \<Rightarrow> config" where
  "mergeConfig base opts =
     \<lparr> duration = override (duration base) (duration_opt opts),
       effect = override (effect base) (effect_opt opts),
       startValue = override (startValue base) (startValue_opt opts),
       formatNumber = override (formatNumber base) (formatNumber_opt opts),
       numberFormat = override (numberFormat base) (numberFormat_opt opts),
       prefix = override (prefix base) (prefix_opt opts),
       suffix = override (suffix base) (suffix_opt opts),
       onStart = override (onStart base) (onStart_opt opts),
       onUpdate = override (onUpdate base) (onUpdate_opt opts),
       onComplete = override (onComplete base) (onComplete_opt opts),
       triggerOnce = override (triggerOnce base) (triggerOnce_opt opts) \<rparr>"

definition constructor :: "options \<Rightarrow> error + config" where
  "constructor opts = Inr (mergeConfig defaults opts)"

section \<open>Easing functions\<close>

text \<open>
  \<open>Math.sin\<close>, \<open>Math.pow\<close> and \<open>Math.PI\<close> have no exact rational value; they are
  parameters of the table. The table has the nine keys of the source and no other;
  names that a JavaScript object inherits (such as \<open>constructor\<close>) are not modelled.
\<close>

record math =
  Math_sin :: "number \<Rightarrow> number"
  Math_pow :: "number \<Rightarrow> number \<Rightarrow> number"
  Math_PI :: number

definition linear :: "number \<Rightarrow> number" where
  "linear t = t"

definition slow :: "math \<Rightarrow> number \<Rightarrow> number" where
  "slow M t = Math_pow M t (Fin 4)"

definition fast :: "math \<Rightarrow> number \<Rightarrow> number" where
  "fast M t = jsSub (Fin 1) (Math_pow M (jsSub (Fin 1) t) (Fin 0.3))"

definition bounce :: "number \<Rightarrow> number" where
  "bounce t =
     (let n1 = Fin 7.5625; d1 = Fin 2.75
      in if jsLess t (jsDiv (Fin 1) d1) then jsMul (jsMul n1 t) t
         else if jsLess t (jsDiv (Fin 2) d1) then
           (let t1 = jsSub t (jsDiv (Fin 1.5) d1)
            in jsAdd (jsMul (jsMul n1 t1) t1) (Fin 0.75))
         else if jsLess t (jsDiv (Fin 2.5) d1) then
           (let t1 = jsSub t (jsDiv (Fin 2.25) d1)
            in jsAdd (jsMul (jsMul n1 t1) t1) (Fin 0.9375))
         else
           (let t1 = jsSub t (jsDiv (Fin 2.625) d1)
            in jsAdd (jsMul (jsMul n1 t1) t1) (Fin 0.984375)))"

definition elastic :: "math \<Rightarrow> number \<Rightarrow> number" where
  "elastic M t =
     (if t = Fin 0 then Fin 0
      else if t = Fin 1 then Fin 1
      else
        (let c4 = jsDiv (jsMul (Fin 2) (Math_PI M)) (Fin 3);
             swing = Math_sin M (jsMul (jsSub (jsMul (Fin 20) t) (Fin 11.125)) c4)
         in if jsLess t (Fin 0.5) then
              jsDiv (jsNeg (jsMul (Math_pow M (Fin 2) (jsSub (jsMul (Fin 20) t) (Fin 10))) swing))
                (Fin 2)
            else
              jsAdd
                (jsDiv (jsMul (Math_pow M (Fin 2) (jsAdd (jsMul (Fin (- 20)) t) (Fin 10))) swing)
                   (Fin 2))
                (Fin 1)))"

definition steps :: "number \<Rightarrow> number" where
  "steps t = jsDiv (Math_floor (jsMul t (Fin 5))) (Fin 5)"

definition smooth :: "math \<Rightarrow> number \<Rightarrow> number" where
  "smooth M t =
     (if jsLess t (Fin 0.5) then jsMul (jsMul (Fin 2) t) t
      else jsSub (Fin 1)
             (jsDiv (Math_pow M (jsAdd (jsMul (Fin (- 2)) t) (Fin 2)) (Fin 2)) (Fin 2)))"

definition dramatic :: "number \<Rightarrow> number" where
  "dramatic t = (if jsLess t (Fin 0.8) then Fin 0 else jsDiv (jsSub t (Fin 0.8)) (Fin 0.2))"

definition wave :: "math \<Rightarrow> number \<Rightarrow> number" where
  "wave M t = jsAdd (jsMul (Math_sin M (jsMul (jsMul t (Math_PI M)) (Fin 2))) (Fin 0.1)) t"

definition easingFunctions :: "math \<Rightarrow> string \<rightharpoonup> (number \<Rightarrow> number)" where
  "easingFunctions M =
     map_of
       [(''linear'', linear), (''slow'', slow M), (''fast'', fast M), (''bounce'', bounce),
        (''elastic'', elastic M), (''steps'', steps), (''smooth'', smooth M),
        (''dramatic'', dramatic), (''wave'', wave M)]"

section \<open>Animation\<close>

text \<open>
  An element is its text and its \<open>dataset\<close>; the style changes of the visual effect are
  left out. A callback call is recorded as an event with the arguments it was given.
\<close>

record element =
  textContent :: string
  dataset :: "string \<rightharpoonup> string"

datatype event = Started number | Updated number number | Completed number

text \<open>What the closure \<open>animate\<close> captures from \<open>animateElement\<close>.\<close>

record animation =
  a_config :: config
  a_targetValue :: number
  a_startValue :: number
  a_prefix :: string
  a_suffix :: string
  a_startTime :: number
  a_easingFunction :: "(number \<Rightarrow> number) option"

text \<open>\<open>element.dataset.key || ''\<close> and the text that \<open>parseFloat\<close> sees for a key
  that may be missing.\<close>

definition orEmpty :: "string option \<Rightarrow> string" where
  "orEmpty v = (case v of None \<Rightarrow> [] | Some t \<Rightarrow> t)"

definition orUndefined :: "string option \<Rightarrow> string" where
  "orUndefined v = (case v of None \<Rightarrow> ''undefined'' | Some t \<Rightarrow> t)"

text \<open>
  \<open>animateElement\<close> up to its request for the first frame: the element with its
  \<open>animated\<close> mark, the callback events, and the closure handed to
  \<open>requestAnimationFrame\<close> (none on the early return). \<open>startTime\<close> is the reading of
  \<open>performance.now()\<close>.
\<close>

definition animateElement ::
    "config \<Rightarrow> math \<Rightarrow> element \<Rightarrow> options \<Rightarrow> number \<Rightarrow> element \<times> event list \<times> animation option" where
  "animateElement this_config M element customConfig startTime =
     (if dataset element ''animated'' = Some ''true'' \<and> triggerOnce this_config
        then (element, [], None)
      else
        (let config = mergeConfig this_config customConfig;
             targetValue = parseFloat (orUndefined (dataset element ''targetValue''));
             element1 = element\<lparr>dataset := (dataset element)(''animated'' \<mapsto> ''true'')\<rparr>;
             easingFunction =
               (case easingFunctions M (effect config) of
                  Some f \<Rightarrow> Some f
                | None \<Rightarrow> easingFunctions M ''easeOutCubic'')
         in (element1,
             (if onStart config then [Started targetValue] else []),
             Some \<lparr> a_config = config, a_targetValue = targetValue,
                    a_startValue = startValue config,
                    a_prefix = orEmpty (dataset element ''prefix''),
                    a_suffix = orEmpty (dataset element ''suffix''),
                    a_startTime = startTime, a_easingFunction = easingFunction \<rparr>)))"

definition progressAt :: "animation \<Rightarrow> number \<Rightarrow> number" where
  "progressAt a currentTime =
     Math_min (jsDiv (jsSub currentTime (a_startTime a)) (duration (a_config a))) (Fin 1)"

text \<open>
  One call of the closure \<open>animate\<close>: the element after the frame, the callback events
  and whether another frame was requested. Calling an \<open>undefined\<close> easing function
  throws a TypeError; an error of \<open>formatValue\<close> passes through.
\<close>

definition animate :: "animation \<Rightarrow> number \<Rightarrow> element \<Rightarrow> error + element \<times> event list \<times> bool" where
  "animate a currentTime element =
     (let config = a_config a;
          progress = progressAt a currentTime
      in case a_easingFunction a of
           None \<Rightarrow> Inl TypeError
         | Some easingFunction \<Rightarrow>
             (let easedProgress = easingFunction progress;
                  currentValue =
                    jsAdd (a_startValue a)
                      (jsMul (jsSub (a_targetValue a) (a_startValue a)) easedProgress)
              in case formatValue currentValue config of
                   Inl e \<Rightarrow> Inl e
                 | Inr formattedValue \<Rightarrow>
                     (let element1 =
                            element\<lparr>textContent := a_prefix a @ formattedValue @ a_suffix a\<rparr>;
                          events1 = (if onUpdate config then [Updated currentValue progress] else [])
                      in if jsLess progress (Fin 1) then Inr (element1, events1, True)
                         else
                           (case formatValue (a_targetValue a) config of
                              Inl e \<Rightarrow> Inl e
                            | Inr finalValue \<Rightarrow>
                                Inr (element1\<lparr>textContent := a_prefix a @ finalValue @ a_suffix a\<rparr>,
                                     events1 @ (if onComplete config
                                                  then [Completed (a_targetValue a)] else []),
                                     False)))))"

section \<open>Rounding to a double\<close>

lemma powi_mono: "m \<le> n \<Longrightarrow> (2::rat) powi m \<le> 2 powi n"
  by (rule power_int_increasing) simp_all

lemma powi_pos: "0 < (2::rat) powi n"
  by (simp add: zero_less_power_int)

lemma powi_add: "(2::rat) powi (m + n) = 2 powi m * 2 powi n"
  by (rule power_int_add) simp

lemma bitlen_powi:
  assumes "0 < p"
  shows "(2::rat) powi (bitlen p - 1) \<le> of_int p" and "(of_int p :: rat) < 2 powi bitlen p"
proof -
  from bitlen_bounds[OF assms] have a: "2 ^ nat (bitlen p - 1) \<le> p" and b: "p < 2 ^ nat (bitlen p)"
    by auto
  have ge: "1 \<le> bitlen p" using assms by (simp add: bitlen_alt_def)
  have "(2::rat) powi (bitlen p - 1) = 2 ^ nat (bitlen p - 1)"
    using ge by (simp add: power_int_def)
  also have "\<dots> = of_int (2 ^ nat (bitlen p - 1))" by simp
  also have "\<dots> \<le> of_int p" using a by (simp only: of_int_le_iff)
  finally show "(2::rat) powi (bitlen p - 1) \<le> of_int p" .
  have "(of_int p :: rat) < of_int (2 ^ nat (bitlen p))" using b by (simp only: of_int_less_iff)
  also have "\<dots> = 2 ^ nat (bitlen p)" by simp
  also have "\<dots> = 2 powi bitlen p" using ge by (simp add: power_int_def)
  finally show "(of_int p :: rat) < 2 powi bitlen p" .
qed

lemma binary_exponent:
  assumes "0 < a"
  defines "t \<equiv> bitlen (fst (quotient_of a)) - bitlen (snd (quotient_of a))"
  shows "2 powi (t - 1) < a" and "a < 2 powi (t + 1)"
proof -
  obtain p r where q: "quotient_of a = (p, r)" by (cases "quotient_of a")
  have r: "0 < r" using quotient_of_denom_pos[OF q] .
  have a: "a = of_int p / of_int r" using quotient_of_div[OF q] .
  have p: "0 < p" using assms(1) r unfolding a by (simp add: zero_less_divide_iff)
  have t: "t = bitlen p - bitlen r" by (simp add: t_def q)
  note bp = bitlen_powi[OF p] and br = bitlen_powi[OF r]
  have rpos: "(0::rat) < of_int r" using r by simp
  have "2 powi (t - 1) * of_int r < (2::rat) powi (t - 1) * 2 powi bitlen r"
    using br(2) by (simp add: powi_pos)
  also have "\<dots> = 2 powi (bitlen p - 1)" by (simp add: t flip: powi_add)
  also have "\<dots> \<le> of_int p" by (rule bp(1))
  finally have "2 powi (t - 1) < of_int p / (of_int r :: rat)"
    using rpos by (simp add: pos_less_divide_eq)
  then show "2 powi (t - 1) < a" by (simp add: a)
  have "(of_int p :: rat) < 2 powi bitlen p" by (rule bp(2))
  also have "\<dots> = 2 powi (t + 1) * 2 powi (bitlen r - 1)" by (simp add: t flip: powi_add)
  also have "\<dots> \<le> 2 powi (t + 1) * of_int r"
    using br(1) by (simp add: powi_pos)
  finally have "of_int p / (of_int r :: rat) < 2 powi (t + 1)"
    using rpos by (simp add: pos_divide_less_eq)
  then show "a < 2 powi (t + 1)" by (simp add: a)
qed

lemma ulpExponent_bounds:
  assumes "0 < a"
  shows "- 1074 \<le> ulpExponent a"
    and "a < 2 powi (ulpExponent a + 53)"
    and "ulpExponent a = - 1074 \<or> 2 powi (ulpExponent a + 52) \<le> a"
proof -
  define t where "t = bitlen (fst (quotient_of a)) - bitlen (snd (quotient_of a))"
  define e where "e = (if 2 powi t \<le> a then t else t - 1)"
  have q: "ulpExponent a = max (e - 52) (- 1074)"
    by (simp add: ulpExponent_def Let_def t_def e_def)
  from binary_exponent[OF assms] have lo: "2 powi (t - 1) < a" and hi: "a < 2 powi (t + 1)"
    by (simp_all add: t_def)
  have e1: "2 powi e \<le> a" using lo by (auto simp: e_def)
  have e2: "a < 2 powi (e + 1)" using hi by (auto simp: e_def)
  show "- 1074 \<le> ulpExponent a" by (simp add: q)
  have "e + 1 \<le> max (e - 52) (- 1074) + 53" by simp
  from powi_mono[OF this] e2 show "a < 2 powi (ulpExponent a + 53)" by (simp add: q)
  show "ulpExponent a = - 1074 \<or> 2 powi (ulpExponent a + 52) \<le> a"
  proof (cases "e - 52 \<le> - 1074")
    case True then show ?thesis by (simp add: q)
  next
    case False
    then have "ulpExponent a + 52 = e" by (simp add: q)
    with e1 show ?thesis by simp
  qed
qed

lemma roundHalfEven_nearest:
  "\<bar>of_int (roundHalfEven y) - y\<bar> \<le> \<bar>of_int j - y\<bar>"
proof -
  define f where "f = \<lfloor>y\<rfloor>"
  define d where "d = y - of_int f"
  have d0: "0 \<le> d" and d1: "d < 1" unfolding d_def f_def by linarith+
  have y: "y = of_int f + d" by (simp add: d_def)
  have far: "min d (1 - d) \<le> \<bar>of_int j - y\<bar>"
  proof (cases "j \<le> f")
    case True
    then have "(of_int j :: rat) \<le> of_int f" by simp
    then show ?thesis unfolding y using d0 by linarith
  next
    case False
    then have "f + 1 \<le> j" by simp
    then have "(of_int f :: rat) + 1 \<le> of_int j" by (metis of_int_1 of_int_add of_int_le_iff)
    then show ?thesis unfolding y using d1 by linarith
  qed
  have near: "\<bar>of_int (roundHalfEven y) - y\<bar> \<le> min d (1 - d)"
    unfolding roundHalfEven_def Let_def f_def[symmetric] d_def[symmetric]
    unfolding y using d0 d1 by auto
  from near far show ?thesis by linarith
qed

lemma roundHalfEven_range:
  assumes "0 \<le> y" "y < of_int k"
  shows "0 \<le> roundHalfEven y" and "roundHalfEven y \<le> k"
proof -
  have f0: "0 \<le> \<lfloor>y\<rfloor>" using assms(1) by simp
  have f1: "\<lfloor>y\<rfloor> < k" using assms(2) by (simp add: floor_less_iff)
  show "0 \<le> roundHalfEven y" using f0 by (auto simp: roundHalfEven_def Let_def)
  show "roundHalfEven y \<le> k" using f1 by (auto simp: roundHalfEven_def Let_def)
qed


lemma isDouble_neg: "isDouble w \<Longrightarrow> isDouble (- w)"
proof -
  assume "isDouble w"
  then obtain m e where "w = of_int m * 2 powi e" "\<bar>m\<bar> < 2 ^ 53" "- 1074 \<le> e"
    unfolding isDouble_def by blast
  then have "- w = of_int (- m) * 2 powi e \<and> \<bar>- m\<bar> < 2 ^ 53 \<and> - 1074 \<le> e" by simp
  then show ?thesis unfolding isDouble_def by blast
qed

lemma isDouble_abs: "isDouble w \<Longrightarrow> isDouble \<bar>w\<bar>"
  by (cases "0 \<le> w") (simp_all add: isDouble_neg abs_if)

lemma isDouble_zero: "isDouble 0"
proof -
  have "(0::rat) = of_int 0 * 2 powi 0 \<and> \<bar>0::int\<bar> < 2 ^ 53 \<and> - 1074 \<le> (0::int)" by simp
  then show ?thesis unfolding isDouble_def by blast
qed

lemma isDouble_sgn_mult:
  assumes "isDouble w"
  shows "isDouble (sgn x * w)"
proof (cases x "0::rat" rule: linorder_cases)
  case less then show ?thesis using isDouble_neg[OF assms] by simp
next
  case equal then show ?thesis by (simp add: isDouble_zero)
next
  case greater then show ?thesis using assms by simp
qed

lemma isDouble_int:
  assumes "\<bar>k\<bar> \<le> 2 ^ 53"
  shows "isDouble (of_int k)"
proof (cases "\<bar>k\<bar> < 2 ^ 53")
  case True
  then have "of_int k = (of_int k :: rat) * 2 powi 0 \<and> \<bar>k\<bar> < 2 ^ 53 \<and> - 1074 \<le> (0::int)" by simp
  then show ?thesis unfolding isDouble_def by blast
next
  case False
  with assms have "k = 2 ^ 53 \<or> k = - (2 ^ 53)" by linarith
  then have "of_int k = (of_int (k div 2) :: rat) * 2 powi 1 \<and> \<bar>k div 2\<bar> < 2 ^ 53 \<and> - 1074 \<le> (1::int)"
    by auto
  then show ?thesis unfolding isDouble_def by blast
qed

lemma isDouble_1e21: "isDouble (10 ^ 21)"
proof -
  have "(10::rat) ^ 21 = of_int 476837158203125 * 2 powi 21 \<and> \<bar>476837158203125::int\<bar> < 2 ^ 53
        \<and> - 1074 \<le> (21::int)" by simp
  then show ?thesis unfolding isDouble_def by blast
qed

text \<open>A double is a multiple of \<open>2^-1074\<close>.\<close>

lemma isDouble_dyadic:
  assumes "isDouble w"
  shows "\<exists>k. w * 2 ^ 1074 = of_int k"
proof -
  from assms obtain m e where w: "w = of_int m * 2 powi e" and e: "- 1074 \<le> e"
    unfolding isDouble_def by blast
  have "(2::rat) powi e * 2 ^ 1074 = 2 powi (e + 1074)"
    by (simp add: powi_add)
  also have "\<dots> = 2 ^ nat (e + 1074)" using e by (simp add: power_int_def)
  finally have "w * 2 ^ 1074 = of_int (m * 2 ^ nat (e + 1074))"
    by (simp add: w mult.assoc)
  then show ?thesis by blast
qed

text \<open>From \<open>2^52\<close> on, every double is an integer.\<close>

lemma isDouble_large_int:
  assumes "isDouble w" and "2 ^ 52 \<le> \<bar>w\<bar>"
  shows "\<exists>k. w = of_int k"
proof -
  from assms(1) obtain m e where w: "w = of_int m * 2 powi e" and m: "\<bar>m\<bar> < 2 ^ 53"
    unfolding isDouble_def by blast
  show ?thesis
  proof (cases "0 \<le> e")
    case True
    then have "w = of_int (m * 2 ^ nat e)" by (simp add: w power_int_def)
    then show ?thesis by blast
  next
    case False
    then have "e \<le> - 1" by simp
    from powi_mono[OF this] have p: "(2::rat) powi e \<le> 1 / 2" by simp
    have "\<bar>w\<bar> = of_int \<bar>m\<bar> * 2 powi e" by (simp add: w abs_mult powi_pos less_imp_le)
    also have "\<dots> \<le> of_int \<bar>m\<bar> * (1 / 2)"
      by (rule mult_left_mono[OF p]) simp
    also have "(of_int \<bar>m\<bar> :: rat) < of_int (2 ^ 53)" using m by (simp only: of_int_less_iff)
    finally have "\<bar>w\<bar> < 2 ^ 52" by simp
    with assms(2) show ?thesis by simp
  qed
qed

lemma toDouble_zero [simp]: "toDouble 0 = 0"
  by (simp add: toDouble_def)

lemma toDouble_neg: "toDouble (- x) = - toDouble x"
  by (simp add: toDouble_def sgn_minus)

text \<open>The rounded magnitude: an integer between 0 and \<open>2^53\<close> in units of the last place.\<close>

lemma significand_range:
  assumes "0 < a"
  shows "0 \<le> roundHalfEven (a / 2 powi ulpExponent a)"
    and "roundHalfEven (a / 2 powi ulpExponent a) \<le> 2 ^ 53"
proof -
  have "a < 2 powi (ulpExponent a + 53)" by (rule ulpExponent_bounds(2)[OF assms])
  also have "\<dots> = 2 powi ulpExponent a * 2 ^ 53" by (simp add: powi_add)
  finally have "a / 2 powi ulpExponent a < of_int (2 ^ 53)"
    by (simp add: pos_divide_less_eq powi_pos mult.commute)
  moreover have "0 \<le> a / 2 powi ulpExponent a" using assms by (simp add: powi_pos less_imp_le)
  ultimately show "0 \<le> roundHalfEven (a / 2 powi ulpExponent a)"
    and "roundHalfEven (a / 2 powi ulpExponent a) \<le> 2 ^ 53"
    using roundHalfEven_range by blast+
qed

lemma toDouble_isDouble: "isDouble (toDouble x)"
proof (cases "x = 0")
  case True
  then show ?thesis by (simp add: isDouble_zero)
next
  case False
  then have a: "0 < \<bar>x\<bar>" by simp
  define q where "q = ulpExponent \<bar>x\<bar>"
  define n where "n = roundHalfEven (\<bar>x\<bar> / 2 powi q)"
  have n: "0 \<le> n" "n \<le> 2 ^ 53" using significand_range[OF a] by (simp_all add: n_def q_def)
  have q: "- 1074 \<le> q" using ulpExponent_bounds(1)[OF a] by (simp add: q_def)
  have "isDouble (of_int n * 2 powi q)"
  proof (cases "n < 2 ^ 53")
    case True
    with n(1) q have "of_int n * 2 powi q = (of_int n :: rat) * 2 powi q \<and> \<bar>n\<bar> < 2 ^ 53 \<and> - 1074 \<le> q"
      by simp
    then show ?thesis unfolding isDouble_def by blast
  next
    case False
    with n(2) have n53: "n = 2 ^ 53" by simp
    have "(of_int n :: rat) * 2 powi q = of_int (2 ^ 52) * 2 powi (q + 1)"
      by (simp add: n53 powi_add)
    with q have "of_int n * 2 powi q = (of_int (2 ^ 52) :: rat) * 2 powi (q + 1)
        \<and> \<bar>2 ^ 52 :: int\<bar> < 2 ^ 53 \<and> - 1074 \<le> q + 1" by simp
    then show ?thesis unfolding isDouble_def by blast
  qed
  from isDouble_sgn_mult[OF this, of x] show ?thesis
    using False by (simp add: toDouble_def n_def q_def mult.assoc)
qed


lemma nearest_multiple:
  fixes a :: rat
  shows "\<bar>of_int (roundHalfEven (a / 2 powi q)) * 2 powi q - a\<bar> \<le> \<bar>of_int j * 2 powi q - a\<bar>"
proof -
  have p: "(0::rat) < 2 powi q" by (rule powi_pos)
  have e: "of_int i * 2 powi q - a = (of_int i - a / 2 powi q) * 2 powi q" for i :: int
    using p by (simp add: field_simps)
  have "\<bar>of_int (roundHalfEven (a / 2 powi q)) - a / 2 powi q\<bar> * 2 powi q
        \<le> \<bar>of_int j - a / 2 powi q\<bar> * 2 powi q"
    by (rule mult_right_mono[OF roundHalfEven_nearest]) (simp add: p less_imp_le)
  then show ?thesis
    unfolding e abs_mult using p by (simp add: abs_of_pos)
qed

lemma toDouble_nearest_pos:
  assumes a: "0 < a" and u: "isDouble u"
  shows "\<bar>of_int (roundHalfEven (a / 2 powi ulpExponent a)) * 2 powi ulpExponent a - a\<bar>
         \<le> \<bar>u - a\<bar>"
proof -
  define q where "q = ulpExponent a"
  from u obtain m e where um: "u = of_int m * 2 powi e" and m: "\<bar>m\<bar> < 2 ^ 53"
    and e: "- 1074 \<le> e"
    unfolding isDouble_def by blast
  show ?thesis
  proof (cases "q \<le> e")
    case True
    have "(2::rat) powi e = 2 powi (e - q) * 2 powi q" by (simp flip: powi_add)
    also have "(2::rat) powi (e - q) = of_int (2 ^ nat (e - q))"
      using True by (simp add: power_int_def)
    finally have "u = of_int (m * 2 ^ nat (e - q)) * 2 powi q"
      by (simp add: um mult.assoc)
    then show ?thesis
      using nearest_multiple[of a q "m * 2 ^ nat (e - q)"] by (simp add: q_def)
  next
    case False
    then have eq: "e \<le> q - 1" by simp
    from False e have "q \<noteq> - 1074" by simp
    with ulpExponent_bounds(3)[OF a] have lo: "2 powi (q + 52) \<le> a" by (simp add: q_def)
    have "\<bar>u\<bar> = of_int \<bar>m\<bar> * 2 powi e" by (simp add: um abs_mult powi_pos less_imp_le)
    also have "\<dots> \<le> of_int \<bar>m\<bar> * 2 powi (q - 1)"
      by (rule mult_left_mono[OF powi_mono[OF eq]]) simp
    also have "\<dots> < of_int (2 ^ 53) * 2 powi (q - 1)"
      by (rule mult_strict_right_mono) (use m in \<open>simp_all only: of_int_less_iff powi_pos\<close>)
    also have "\<dots> = 2 powi (q + 52)"
    proof -
      have "(2::rat) powi (53 + (q - 1)) = 2 powi 53 * 2 powi (q - 1)" by (rule powi_add)
      moreover have "53 + (q - 1) = q + 52" by simp
      ultimately show ?thesis by simp
    qed
    finally have ub: "\<bar>u\<bar> < 2 powi (q + 52)" .
    have "(2::rat) powi (q + 52) = of_int (2 ^ 52) * 2 powi q"
      by (simp add: powi_add mult.commute)
    with nearest_multiple[of a q "2 ^ 52"]
    have "\<bar>of_int (roundHalfEven (a / 2 powi q)) * 2 powi q - a\<bar> \<le> \<bar>2 powi (q + 52) - a\<bar>"
      by simp
    also have "\<dots> \<le> \<bar>u - a\<bar>" using ub lo by linarith
    finally show ?thesis by (simp add: q_def)
  qed
qed

text \<open>No double is nearer to \<open>x\<close> than \<open>toDouble x\<close>.\<close>

lemma toDouble_nearest:
  assumes "isDouble w"
  shows "\<bar>toDouble x - x\<bar> \<le> \<bar>w - x\<bar>"
proof (cases "x = 0")
  case True then show ?thesis by simp
next
  case False
  then have a: "0 < \<bar>x\<bar>" by simp
  define tv :: rat where "tv = of_int (roundHalfEven (\<bar>x\<bar> / 2 powi ulpExponent \<bar>x\<bar>)) * 2 powi ulpExponent \<bar>x\<bar>"
  have s: "\<bar>sgn x\<bar> = 1" using False by (simp add: abs_sgn_eq)
  have x: "x = sgn x * \<bar>x\<bar>" by (simp add: sgn_mult_abs)
  have td: "toDouble x = sgn x * tv" using False by (simp add: toDouble_def tv_def mult.assoc)
  have ss: "sgn x * sgn x = 1" using False by (simp add: sgn_if)
  have "sgn x * (tv - \<bar>x\<bar>) = sgn x * tv - sgn x * \<bar>x\<bar>" by (simp add: algebra_simps)
  also have "\<dots> = toDouble x - x" by (simp only: td sgn_mult_abs)
  finally have "toDouble x - x = sgn x * (tv - \<bar>x\<bar>)" by (rule sym)
  then have "\<bar>toDouble x - x\<bar> = \<bar>sgn x\<bar> * \<bar>tv - \<bar>x\<bar>\<bar>"
    by (simp only: abs_mult)
  also have "\<dots> = \<bar>tv - \<bar>x\<bar>\<bar>" by (simp only: s mult_1)
  also have "\<dots> \<le> \<bar>sgn x * w - \<bar>x\<bar>\<bar>"
    unfolding tv_def by (rule toDouble_nearest_pos[OF a isDouble_sgn_mult[OF assms]])
  also have "\<dots> = \<bar>sgn x\<bar> * \<bar>sgn x * w - \<bar>x\<bar>\<bar>" by (simp only: s mult_1)
  also have "\<dots> = \<bar>sgn x * (sgn x * w - \<bar>x\<bar>)\<bar>" by (simp only: abs_mult)
  also have "sgn x * (sgn x * w - \<bar>x\<bar>) = (sgn x * sgn x) * w - sgn x * \<bar>x\<bar>"
    by (simp add: algebra_simps)
  also have "\<dots> = w - x" by (simp only: ss sgn_mult_abs mult_1)
  finally show ?thesis .
qed

lemma toDouble_of_double: "isDouble w \<Longrightarrow> toDouble w = w"
  using toDouble_nearest[of w w] by simp

lemma toDouble_idem [simp]: "toDouble (toDouble x) = toDouble x"
  by (rule toDouble_of_double[OF toDouble_isDouble])

lemma toDouble_le_1e21:
  assumes "\<bar>x\<bar> \<le> 10 ^ 21"
  shows "\<bar>toDouble x\<bar> \<le> 10 ^ 21"
proof (rule ccontr)
  assume n: "\<not> \<bar>toDouble x\<bar> \<le> 10 ^ 21"
  show False
  proof (cases "0 \<le> toDouble x")
    case True
    with n have gt: "10 ^ 21 < toDouble x" by simp
    from toDouble_nearest[OF isDouble_1e21, of x] show False using gt assms by linarith
  next
    case False
    with n have lt: "toDouble x < - (10 ^ 21)" by simp
    from toDouble_nearest[OF isDouble_neg[OF isDouble_1e21], of x] show False
      using lt assms by linarith
  qed
qed


lemma five_not_dvd_pow2: "\<not> (5::int) dvd 2 ^ k"
proof
  assume "(5::int) dvd 2 ^ k"
  moreover have "coprime (5::int) (2 ^ k)" by (rule coprime_power_right_iff[THEN iffD2]) simp
  ultimately have "is_unit (5::int)" by (metis coprime_def dvd_refl)
  then show False by simp
qed

text \<open>Two doubles do not differ by \<open>10^-d\<close> unless \<open>d = 0\<close>.\<close>

lemma doubles_not_a_grid_step_apart:
  assumes "isDouble a" "isDouble b" "a - b = 1 / 10 ^ d"
  shows "d = 0"
proof (rule ccontr)
  assume "d \<noteq> 0"
  then obtain d' where d: "d = Suc d'" by (cases d) auto
  define p :: rat where "p = 2 ^ 1074"
  from isDouble_dyadic[OF assms(1)] isDouble_dyadic[OF assms(2)]
  obtain ka kb where ka: "a * p = of_int ka" and kb: "b * p = of_int kb"
    unfolding p_def by blast
  have "(a - b) * p = a * p - b * p" by (rule left_diff_distrib)
  also have "\<dots> = of_int (ka - kb)" by (simp only: ka kb of_int_diff)
  finally have "p / 10 ^ d = of_int (ka - kb)" unfolding assms(3) by simp
  then have "p = of_int (ka - kb) * 10 ^ d" by (simp add: field_simps)
  also have "\<dots> = of_int ((ka - kb) * 10 ^ d)" by simp
  finally have "(of_int (2 ^ 1074) :: rat) = of_int ((ka - kb) * 10 ^ d)"
    unfolding p_def by (simp only: of_int_power of_int_numeral)
  then have "(2::int) ^ 1074 = (ka - kb) * 10 ^ d" by (simp only: of_int_eq_iff)
  then have "(5::int) dvd 2 ^ 1074" by (simp only: d power_Suc) simp
  with five_not_dvd_pow2 show False by blast
qed

lemma toFixed_grid_stable:
  fixes d :: nat
  assumes v: "isDouble v" and vb: "\<bar>v\<bar> < 10 ^ 21"
  defines "n \<equiv> \<lfloor>\<bar>v\<bar> * 10 ^ d + 1 / 2\<rfloor>"
  defines "s \<equiv> sgn v * of_int n / 10 ^ d"
  shows "\<bar>toDouble s\<bar> < 10 ^ 21"
    and "sgn (toDouble s) * of_int \<lfloor>\<bar>toDouble s\<bar> * 10 ^ d + 1 / 2\<rfloor> / 10 ^ d = s"
proof -
  define g :: rat where "g = 1 / 10 ^ d"
  define S :: rat where "S = of_int n / 10 ^ d"
  define r where "r = toDouble s"
  have gpos: "0 < g" by (simp add: g_def)
  have g1: "g \<le> 1" by (simp add: g_def)
  have n0: "0 \<le> n" unfolding n_def by (simp add: floor_le_iff)
  have fl: "of_int n \<le> \<bar>v\<bar> * 10 ^ d + 1 / 2" "\<bar>v\<bar> * 10 ^ d + 1 / 2 < of_int n + 1"
    unfolding n_def by linarith+
  have Sv: "S - g / 2 \<le> \<bar>v\<bar>" "\<bar>v\<bar> < S + g / 2"
    using fl by (simp_all add: S_def g_def field_simps)
  have goal: "\<bar>r\<bar> < 10 ^ 21 \<and> sgn r * of_int \<lfloor>\<bar>r\<bar> * 10 ^ d + 1 / 2\<rfloor> / 10 ^ d = s"
  proof (cases "n = 0")
    case True
    then have "s = 0" by (simp add: s_def)
    then show ?thesis by (simp add: r_def)
  next
    case False
    with n0 have n1: "1 \<le> n" by simp
    then have "(1::rat) \<le> of_int n" by simp
    then have Sg: "g \<le> S" by (simp add: S_def g_def field_simps)
    have vnz: "v \<noteq> 0"
    proof
      assume "v = 0"
      moreover have "\<lfloor>(1 / 2 :: rat)\<rfloor> = 0" by (rule floor_unique) simp_all
      ultimately have "n = 0" by (simp add: n_def)
      with False show False by simp
    qed
    define c where "c = sgn v"
    have cc: "c * c = 1" and ac: "\<bar>c\<bar> = 1" using vnz by (simp_all add: c_def sgn_if)
    have sS: "s = c * S" by (simp add: s_def S_def c_def)
    have vv: "v = c * \<bar>v\<bar>" by (simp add: c_def sgn_mult_abs)
    have "v - s = c * (\<bar>v\<bar> - S)" by (subst vv) (simp add: sS algebra_simps)
    then have "\<bar>v - s\<bar> = \<bar>\<bar>v\<bar> - S\<bar>" by (simp only: abs_mult ac mult_1)
    with Sv have vs: "\<bar>v - s\<bar> \<le> g / 2" by linarith
    from toDouble_nearest[OF v, of s] have rv: "\<bar>r - s\<bar> \<le> \<bar>v - s\<bar>" by (simp add: r_def)
    have "c * r - S = c * (r - s)" by (simp add: sS algebra_simps cc flip: mult.assoc)
    then have crs: "\<bar>c * r - S\<bar> = \<bar>r - s\<bar>" by (simp only: abs_mult ac mult_1)
    have crpos: "0 < c * r" using crs rv vs Sg gpos by linarith
    have "\<bar>r\<bar> = \<bar>c\<bar> * \<bar>r\<bar>" by (simp only: ac mult_1)
    also have "\<dots> = \<bar>c * r\<bar>" by (simp only: abs_mult)
    also have "\<dots> = c * r" using crpos by simp
    finally have ar: "\<bar>r\<bar> = c * r" .
    have rnz: "r \<noteq> 0" using crpos by auto
    have "sgn r = c"
    proof (cases "0 < c")
      case True
      with ac have "c = 1" by simp
      with crpos show ?thesis by simp
    next
      case False
      with ac have "c = - 1" by linarith
      with crpos show ?thesis by simp
    qed
    note sr = this
    have rS: "S - g / 2 \<le> \<bar>r\<bar>" "\<bar>r\<bar> \<le> S + g / 2"
      using crs rv vs unfolding ar by linarith+
    have strict: "\<bar>r\<bar> \<noteq> S + g / 2"
    proof
      assume top: "\<bar>r\<bar> = S + g / 2"
      then have "c * r - S = g / 2" unfolding ar by simp
      then have "\<bar>r - s\<bar> = g / 2" using crs gpos by linarith
      with rv vs have "\<bar>\<bar>v\<bar> - S\<bar> = g / 2"
        using \<open>\<bar>v - s\<bar> = \<bar>\<bar>v\<bar> - S\<bar>\<close> by linarith
      with Sv(2) have bot: "\<bar>v\<bar> = S - g / 2" by linarith
      have diff: "\<bar>r\<bar> - \<bar>v\<bar> = 1 / 10 ^ d" using top bot by (simp add: g_def)
      have dr: "isDouble \<bar>r\<bar>" unfolding r_def by (rule isDouble_abs[OF toDouble_isDouble])
      from doubles_not_a_grid_step_apart[OF dr isDouble_abs[OF v] diff] have d0: "d = 0" .
      then have top0: "\<bar>r\<bar> = of_int n + 1 / 2" using top by (simp add: S_def g_def)
      have "\<bar>r\<bar> < 2 ^ 52"
      proof (rule ccontr)
        assume "\<not> \<bar>r\<bar> < 2 ^ 52"
        then have "2 ^ 52 \<le> \<bar>\<bar>r\<bar>\<bar>" by simp
        from isDouble_large_int[OF dr this] obtain k where "\<bar>r\<bar> = of_int k" by blast
        with top0 have "(of_int (2 * k) :: rat) = of_int (2 * n + 1)" by simp
        then have "2 * k = 2 * n + 1" by (simp only: of_int_eq_iff)
        then show False by presburger
      qed
      with top0 have "(of_int n :: rat) < of_int (2 ^ 52)" by simp
      then have "n < 2 ^ 52" by (simp only: of_int_less_iff)
      with n0 have "\<bar>n\<bar> \<le> 2 ^ 53" by simp
      from isDouble_sgn_mult[OF isDouble_int[OF this], of v]
      have "isDouble s" using d0 by (simp add: s_def)
      from toDouble_of_double[OF this] have "r = s" by (simp add: r_def)
      then have "\<bar>r - s\<bar> = 0" by simp
      with \<open>\<bar>r - s\<bar> = g / 2\<close> gpos show False by simp
    qed
    with rS(2) have rlt: "\<bar>r\<bar> < S + g / 2" by simp
    have "of_int n \<le> \<bar>r\<bar> * 10 ^ d + 1 / 2" "\<bar>r\<bar> * 10 ^ d + 1 / 2 < of_int n + 1"
      using rS(1) rlt by (simp_all add: S_def g_def field_simps)
    then have fr: "\<lfloor>\<bar>r\<bar> * 10 ^ d + 1 / 2\<rfloor> = n" by linarith
    have v1: "\<bar>v\<bar> + 1 \<le> 10 ^ 21"
    proof (cases "2 ^ 52 \<le> \<bar>v\<bar>")
      case True
      from isDouble_large_int[OF v True] obtain k where k: "v = of_int k" by blast
      from vb have "(of_int \<bar>k\<bar> :: rat) < of_int (10 ^ 21)" by (simp add: k)
      then have "\<bar>k\<bar> < 10 ^ 21" by (simp only: of_int_less_iff)
      then have "\<bar>k\<bar> + 1 \<le> 10 ^ 21" by simp
      then have "(of_int (\<bar>k\<bar> + 1) :: rat) \<le> of_int (10 ^ 21)" by (simp only: of_int_le_iff)
      then show ?thesis by (simp add: k)
    next
      case False
      then show ?thesis by simp
    qed
    have "\<bar>r\<bar> < \<bar>v\<bar> + g" using rlt Sv(1) by linarith
    with g1 v1 have rb: "\<bar>r\<bar> < 10 ^ 21" by linarith
    show ?thesis using rb by (simp add: fr sr sS S_def)
  qed
  then show "\<bar>toDouble s\<bar> < 10 ^ 21"
    and "sgn (toDouble s) * of_int \<lfloor>\<bar>toDouble s\<bar> * 10 ^ d + 1 / 2\<rfloor> / 10 ^ d = s"
    by (simp_all add: r_def)
qed

lemma toDouble_ge_double:
  assumes "isDouble c" "c \<le> x"
  shows "c \<le> toDouble x"
  using toDouble_nearest[OF assms(1), of x] assms(2) by linarith

lemma toDouble_le_double:
  assumes "isDouble c" "x \<le> c"
  shows "toDouble x \<le> c"
  using toDouble_nearest[OF assms(1), of x] assms(2) by linarith

text \<open>The double nearest to an integer is an integer.\<close>

lemma toDouble_int: "\<exists>k. toDouble (of_int n) = of_int k"
proof (cases "\<bar>n\<bar> \<le> 2 ^ 53")
  case True
  from toDouble_of_double[OF isDouble_int[OF True]] show ?thesis by blast
next
  case False
  have d: "isDouble (of_int ((2::int) ^ 53))" by (rule isDouble_int) simp
  have "2 ^ 53 \<le> \<bar>toDouble (of_int n)\<bar>"
  proof (cases "0 \<le> n")
    case True
    with False have "2 ^ 53 \<le> n" by simp
    then have "(of_int (2 ^ 53) :: rat) \<le> of_int n" by (simp only: of_int_le_iff)
    from toDouble_ge_double[OF d this] show ?thesis by simp
  next
    case f: False
    with False have "2 ^ 53 \<le> - n" by simp
    then have "(of_int (2 ^ 53) :: rat) \<le> of_int (- n)" by (simp only: of_int_le_iff)
    from toDouble_ge_double[OF d this] have "2 ^ 53 \<le> - toDouble (of_int n)"
      by (simp add: toDouble_neg)
    then show ?thesis by simp
  qed
  then have "2 ^ 52 \<le> \<bar>toDouble (of_int n)\<bar>" by simp
  from isDouble_large_int[OF toDouble_isDouble this] show ?thesis .
qed

lemma toDouble_int_1e21:
  assumes "\<bar>n\<bar> \<le> 10 ^ 21"
  shows "\<exists>k. \<bar>k\<bar> \<le> 10 ^ 21 \<and> toDouble (of_int n) = of_int k"
proof -
  from toDouble_int obtain k where k: "toDouble (of_int n) = of_int k" by blast
  from assms have "(of_int \<bar>n\<bar> :: rat) \<le> of_int (10 ^ 21)" by (simp only: of_int_le_iff)
  then have "\<bar>of_int n :: rat\<bar> \<le> 10 ^ 21" by simp
  from toDouble_le_1e21[OF this] have "(of_int \<bar>k\<bar> :: rat) \<le> of_int (10 ^ 21)" by (simp add: k)
  then have "\<bar>k\<bar> \<le> 10 ^ 21" by (simp only: of_int_le_iff)
  with k show ?thesis by blast
qed

section \<open>Facts about the string helpers\<close>

lemma filter_dropWhile_disjoint:
  "(\<And>x. Q x \<Longrightarrow> \<not> P x) \<Longrightarrow> filter P (dropWhile Q xs) = filter P xs"
  by (induction xs) auto

lemma space_not_kept: "isSpace c \<Longrightarrow> \<not> keptChar c"
  by (auto simp: isSpace_def keptChar_def isDigit_def)

lemma clean_trim: "filter keptChar (trim t) = filter keptChar t"
proof -
  have "filter keptChar (trim t) = rev (filter keptChar (dropWhile isSpace (rev (dropWhile isSpace t))))"
    by (simp add: trim_def rev_filter)
  also have "\<dots> = rev (filter keptChar (rev (dropWhile isSpace t)))"
    by (simp add: filter_dropWhile_disjoint space_not_kept)
  also have "\<dots> = filter keptChar (dropWhile isSpace t)"
    by (simp add: rev_filter)
  also have "\<dots> = filter keptChar t"
    by (simp add: filter_dropWhile_disjoint space_not_kept)
  finally show ?thesis .
qed

lemma split_str_none: "c \<notin> set s \<Longrightarrow> split_str c s = [s]"
  by (induction s) auto

lemma split_str_one:
  "c \<notin> set b \<Longrightarrow> c \<notin> set a \<Longrightarrow> split_str c (b @ c # a) = [b, a]"
  by (induction b) (auto simp: split_str_none)

text \<open>With exactly one separator there are two segments, so the reads \<open>parts[0]\<close>
  and \<open>parts[1]\<close> of the two single-separator branches are in range.\<close>

lemma split_str_length: "length (split_str c s) = Suc (count_list s c)"
  by (induction s) (auto split: list.splits)

lemma lastIndexOfFrom_absent:
  "c \<notin> set s \<Longrightarrow> lastIndexOfFrom i [c] s = - 1"
  by (induction s arbitrary: i) (auto simp: Let_def)

lemma lastIndexOfFrom_last:
  "c \<notin> set a \<Longrightarrow> lastIndexOfFrom i [c] (b @ c # a) = int (i + length b)"
  by (induction b arbitrary: i) (auto simp: Let_def lastIndexOfFrom_absent)

lemma lastIndexOf_last:
  "c \<notin> set a \<Longrightarrow> lastIndexOf (b @ c # a) [c] = int (length b)"
  by (simp add: lastIndexOf_def lastIndexOfFrom_last)

lemma substring_prefix: "substring (b @ r) 0 (int (length b)) = b"
  by (simp add: substring_def Let_def)

lemma substringFrom_suffix: "substringFrom (b @ c # a) (int (length b) + 1) = a"
  by (simp add: substringFrom_def nat_add_distrib)

section \<open>Auto-detection: commas only\<close>

lemma smart_trim: "smartNumberDetection (trim text) = smartNumberDetection text"
  by (simp only: smartNumberDetection_def clean_trim)

lemma extractNumber_auto:
  assumes "inputDecimalSeparator (numberFormat cfg) = Some ''auto''"
    and "smartDetection (numberFormat cfg)"
  shows "extractNumber cfg text = smartNumberDetection text"
  using assms by (simp add: extractNumber_def Let_def smart_trim)






section \<open>Auto-detection: dots only\<close>

lemma takeWhile_snoc_stop: "\<not> P x \<Longrightarrow> takeWhile P (xs @ [x]) = takeWhile P xs"
  by (induction xs) auto

lemma dropWhile_snoc_stop: "\<not> P x \<Longrightarrow> dropWhile P (xs @ [x]) = dropWhile P xs @ [x]"
  by (induction xs) auto

lemma dot_not_digit: "\<not> isDigit CHR ''.''"
  by (simp add: isDigit_def)

lemma hd_dropWhile_in: "dropWhile P xs \<noteq> [] \<Longrightarrow> hd (dropWhile P xs) \<in> set xs \<and> \<not> P (hd (dropWhile P xs))"
  by (induction xs) auto

lemma unsignedLiteral_trailing_dot:
  assumes "\<forall>c\<in>set u. isDigit c \<or> c = CHR ''-''"
  shows "unsignedLiteral (u @ ''.'') = unsignedLiteral u"
proof -
  have tw: "takeWhile isDigit (u @ ''.'') = takeWhile isDigit u"
    by (simp add: takeWhile_snoc_stop dot_not_digit)
  have dw: "dropWhile isDigit (u @ ''.'') = dropWhile isDigit u @ ''.''"
    by (simp add: dropWhile_snoc_stop dot_not_digit)
  show ?thesis
  proof (cases "dropWhile isDigit u = []")
    case True
    show ?thesis
      unfolding unsignedLiteral_def Let_def tw dw True
      by (simp add: exponentPart_def)
  next
    case False
    from hd_dropWhile_in[OF False] assms have h: "hd (dropWhile isDigit u) = CHR ''-''"
      by blast
    from False obtain d where d: "dropWhile isDigit u = CHR ''-'' # d"
      using h by (cases "dropWhile isDigit u") auto
    show ?thesis
      unfolding unsignedLiteral_def Let_def tw dw d
      by (simp add: exponentPart_def)
  qed
qed

lemma not_Infinity:
  assumes "\<forall>c\<in>set v. isDigit c \<or> c = CHR ''-''"
  shows "take 8 v \<noteq> ''Infinity''"
proof (cases v)
  case Nil then show ?thesis by simp
next
  case (Cons x xs)
  with assms have "x \<noteq> CHR ''I''" by (auto simp: isDigit_def)
  with Cons show ?thesis by simp
qed

lemma literalValue_trailing_dot:
  assumes "\<forall>c\<in>set v. isDigit c \<or> c = CHR ''-''"
  shows "literalValue neg (v @ ''.'') = literalValue neg v"
proof -
  have "\<forall>c\<in>set (v @ ''.''). isDigit c \<or> c = CHR ''-'' \<or> c = CHR ''.''"
    using assms by auto
  then have a: "take 8 (v @ ''.'') \<noteq> ''Infinity''"
    by (cases v) (auto simp: isDigit_def)
  have b: "take 8 v \<noteq> ''Infinity''" by (rule not_Infinity[OF assms])
  show ?thesis
    unfolding literalValue_def
    by (simp only: a b if_False unsignedLiteral_trailing_dot[OF assms])
qed

lemma parseFloat_trailing_dot:
  assumes "\<forall>c\<in>set s. isDigit c \<or> c = CHR ''-''"
  shows "parseFloat (s @ ''.'') = parseFloat s"
proof (cases s)
  case Nil
  show ?thesis unfolding Nil by code_simp
next
  case (Cons c cs)
  have c: "isDigit c \<or> c = CHR ''-''" and cs: "\<forall>c\<in>set cs. isDigit c \<or> c = CHR ''-''"
    using assms Cons by auto
  have nsp: "\<not> isSpace c" using c by (auto simp: isSpace_def isDigit_def)
  have t1: "dropWhile isSpace (s @ ''.'') = c # (cs @ ''.'')" using nsp Cons by simp
  have t2: "dropWhile isSpace s = c # cs" using nsp Cons by simp
  have w: "literalValue False (c # cs @ ''.'') = literalValue False (c # cs)"
    using literalValue_trailing_dot[OF assms, of False] Cons by simp
  show ?thesis
    unfolding parseFloat_def Let_def t1 t2
    by (simp add: literalValue_trailing_dot[OF cs] w)
qed


lemma smart_dots_only:
  assumes "CHR ''.'' \<in> set (filter keptChar text)" "CHR '','' \<notin> set (filter keptChar text)"
  shows "smartNumberDetection text = parseWithDotSeparator (filter keptChar text)"
proof -
  have d: "0 < count_list (filter keptChar text) CHR ''.''"
    using assms(1) by (metis count_list_0_iff gr0I)
  have c: "count_list (filter keptChar text) CHR '','' = 0"
    using assms(2) by (simp only: count_list_0_iff not_False_eq_True)
  show ?thesis
    unfolding smartNumberDetection_def Let_def c using d assms(1) by simp
qed

lemma dot_single:
  assumes "CHR ''.'' \<notin> set b" "CHR ''.'' \<notin> set a"
  shows "parseWithDotSeparator (b @ CHR ''.'' # a) =
     (if length a = 3 then parseFloat (b @ a) else parseFloat (b @ ''.'' @ a))"
  using assms by (auto simp: parseWithDotSeparator_def Let_def split_str_one)

lemma dot_multi:
  assumes "CHR ''.'' \<in> set b" "CHR ''.'' \<notin> set a"
  shows "parseWithDotSeparator (b @ CHR ''.'' # a) =
     (if length a \<le> 2 then parseFloat (removeAll_char CHR ''.'' b @ ''.'' @ a)
      else parseFloat (removeAll_char CHR ''.'' (b @ CHR ''.'' # a)))"
proof -
  have "0 < count_list b CHR ''.''" using assms(1) by (metis count_list_0_iff gr0I)
  then have n1: "count_list (b @ CHR ''.'' # a) CHR ''.'' \<noteq> 1" by simp
  show ?thesis
    unfolding parseWithDotSeparator_def Let_def
    by (simp only: n1 if_False lastIndexOf_last[OF assms(2)] substring_prefix substringFrom_suffix)
qed

text \<open>
C7. Under auto-detection, when the cleaned text has dots and no commas: a single dot
  followed by exactly three characters is dropped as a thousands mark, and a single dot
  followed by one or two characters is the decimal point; with several dots, the dots
  before the last one are dropped and the last segment is the decimal part exactly when
  it is one or two characters long, and otherwise every dot is dropped.
\<close>

theorem dot_heuristic:
  assumes "inputDecimalSeparator (numberFormat cfg) = Some ''auto''"
    and "smartDetection (numberFormat cfg)"
    and "CHR ''.'' \<in> set (filter keptChar text)"
    and "CHR '','' \<notin> set (filter keptChar text)"
  shows "\<forall>before after.
           filter keptChar text = before @ CHR ''.'' # after \<and> CHR ''.'' \<notin> set after \<longrightarrow>
             (if CHR ''.'' \<notin> set before then
                (length after = 3 \<longrightarrow>
                   extractNumber cfg text = parseFloat (before @ after))
                \<and> (1 \<le> length after \<and> length after \<le> 2 \<longrightarrow>
                   extractNumber cfg text = parseFloat (before @ ''.'' @ after))
              else
                (1 \<le> length after \<and> length after \<le> 2 \<longrightarrow>
                   extractNumber cfg text =
                     parseFloat (removeAll_char CHR ''.'' before @ ''.'' @ after))
                \<and> (\<not> (1 \<le> length after \<and> length after \<le> 2) \<longrightarrow>
                   extractNumber cfg text =
                     parseFloat (removeAll_char CHR ''.'' (filter keptChar text))))"
proof (intro allI impI, elim conjE)
  fix before after
  assume eq: "filter keptChar text = before @ CHR ''.'' # after"
    and na: "CHR ''.'' \<notin> set after"
  have ex: "extractNumber cfg text = parseWithDotSeparator (before @ CHR ''.'' # after)"
    by (simp only: extractNumber_auto[OF assms(1,2)] smart_dots_only[OF assms(3,4)] eq)
  show "if CHR ''.'' \<notin> set before then
                (length after = 3 \<longrightarrow>
                   extractNumber cfg text = parseFloat (before @ after))
                \<and> (1 \<le> length after \<and> length after \<le> 2 \<longrightarrow>
                   extractNumber cfg text = parseFloat (before @ ''.'' @ after))
              else
                (1 \<le> length after \<and> length after \<le> 2 \<longrightarrow>
                   extractNumber cfg text =
                     parseFloat (removeAll_char CHR ''.'' before @ ''.'' @ after))
                \<and> (\<not> (1 \<le> length after \<and> length after \<le> 2) \<longrightarrow>
                   extractNumber cfg text =
                     parseFloat (removeAll_char CHR ''.'' (filter keptChar text)))"
  proof (cases "CHR ''.'' \<in> set before")
    case False
    then show ?thesis by (simp add: ex dot_single[OF False na])
  next
    case True
    have "\<forall>c\<in>set (filter keptChar text). keptChar c" by simp
    then have kept: "\<forall>c\<in>set (before @ CHR ''.'' # after). keptChar c"
      by (simp only: eq)
    have nocomma: "CHR '','' \<notin> set before" using assms(4) eq by simp
    have chars: "\<forall>c\<in>set (removeAll_char CHR ''.'' before). isDigit c \<or> c = CHR ''-''"
      using kept nocomma by (auto simp: removeAll_char_def keptChar_def)
    have empty: "after = [] \<Longrightarrow>
        parseFloat (removeAll_char CHR ''.'' before @ ''.'' @ after)
        = parseFloat (removeAll_char CHR ''.'' (before @ CHR ''.'' # after))"
      using parseFloat_trailing_dot[OF chars] by (simp add: removeAll_char_def)
    have "length after = 0 \<or> (1 \<le> length after \<and> length after \<le> 2) \<or> 2 < length after"
      by arith
    then show ?thesis
      using True empty by (auto simp: ex eq dot_multi[OF True na])
  qed
qed

theorem dot_heuristic_witness:
  "extractNumber defaults ''12.345'' = parseFloat ''12345''
   \<and> extractNumber defaults ''$ 3.5'' = parseFloat ''3.5''
   \<and> extractNumber defaults ''1.234.56'' = parseFloat ''1234.56''
   \<and> extractNumber defaults ''1.234.567'' = parseFloat ''1234567''"
proof -
  have auto: "inputDecimalSeparator (numberFormat defaults) = Some ''auto''"
    "smartDetection (numberFormat defaults)"
    by (simp_all add: defaults_def defaultNumberFormat_def)
  have 1: "extractNumber defaults ''12.345'' = parseFloat (''12'' @ ''345'')"
    using dot_heuristic[OF auto, of "''12.345''", rule_format, of "''12''" "''345''"]
    by (simp add: keptChar_def isDigit_def)
  have 2: "extractNumber defaults ''$ 3.5'' = parseFloat (''3'' @ ''.'' @ ''5'')"
    using dot_heuristic[OF auto, of "''$ 3.5''", rule_format, of "''3''" "''5''"]
    by (simp add: keptChar_def isDigit_def)
  have 3: "extractNumber defaults ''1.234.56'' = parseFloat (''1234'' @ ''.'' @ ''56'')"
    using dot_heuristic[OF auto, of "''1.234.56''", rule_format, of "''1.234''" "''56''"]
    by (simp add: keptChar_def isDigit_def removeAll_char_def)
  have 4: "extractNumber defaults ''1.234.567'' = parseFloat ''1234567''"
    using dot_heuristic[OF auto, of "''1.234.567''", rule_format, of "''1.234''" "''567''"]
    by (simp add: keptChar_def isDigit_def removeAll_char_def)
  show ?thesis using 1 2 3 4 by simp
qed

section \<open>Auto-detection: both separators\<close>

lemma smart_mixed:
  assumes "CHR '','' \<in> set (filter keptChar text)" "CHR ''.'' \<in> set (filter keptChar text)"
  shows "smartNumberDetection text = parseWithMixedSeparators (filter keptChar text)"
proof -
  have d: "0 < count_list (filter keptChar text) CHR ''.''"
    using assms(2) by (metis count_list_0_iff gr0I)
  have c: "0 < count_list (filter keptChar text) CHR '',''"
    using assms(1) by (metis count_list_0_iff gr0I)
  show ?thesis
    unfolding smartNumberDetection_def Let_def using c d assms(1) by simp
qed

lemma lastIndexOf_earlier:
  assumes "c \<in> set b" "c \<notin> set r"
  shows "lastIndexOf (b @ r) [c] < int (length b)"
proof -
  from split_list_last[OF assms(1)] obtain ys zs where b: "b = ys @ c # zs" and z: "c \<notin> set zs"
    by blast
  have "c \<notin> set (zs @ r)" using z assms(2) by simp
  from lastIndexOf_last[OF this, of ys] have "lastIndexOf (b @ r) [c] = int (length ys)"
    by (simp add: b)
  then show ?thesis by (simp add: b)
qed

lemma mixed_comma_last:
  assumes "CHR '','' \<notin> set a" "CHR ''.'' \<notin> set a" "CHR ''.'' \<in> set b"
  shows "parseWithMixedSeparators (b @ CHR '','' # a)
         = parseFloat (removeAll_char CHR ''.'' b @ ''.'' @ a)"
proof -
  have c: "lastIndexOf (b @ CHR '','' # a) '','' = int (length b)"
    by (rule lastIndexOf_last[OF assms(1)])
  have "CHR ''.'' \<notin> set (CHR '','' # a)" using assms(2) by simp
  from lastIndexOf_earlier[OF assms(3) this]
  have d: "lastIndexOf (b @ CHR '','' # a) ''.'' < int (length b)" .
  show ?thesis
    unfolding parseWithMixedSeparators_def Let_def c
    using d by (simp add: substring_prefix substringFrom_suffix)
qed

lemma mixed_dot_last:
  assumes "CHR ''.'' \<notin> set a" "CHR '','' \<notin> set a" "CHR '','' \<in> set b"
  shows "parseWithMixedSeparators (b @ CHR ''.'' # a)
         = parseFloat (removeAll_char CHR '','' b @ ''.'' @ a)"
proof -
  have c: "lastIndexOf (b @ CHR ''.'' # a) ''.'' = int (length b)"
    by (rule lastIndexOf_last[OF assms(1)])
  have "CHR '','' \<notin> set (CHR ''.'' # a)" using assms(2) by simp
  from lastIndexOf_earlier[OF assms(3) this]
  have d: "lastIndexOf (b @ CHR ''.'' # a) '','' < int (length b)" .
  show ?thesis
    unfolding parseWithMixedSeparators_def Let_def c
    using d by (simp add: substring_prefix substringFrom_suffix)
qed

text \<open>
C8. Under auto-detection, when the cleaned text has both a comma and a dot: the one of
  the two that occurs last is the decimal separator, every occurrence of the other one is
  dropped, and the result is parsed with a decimal point in the place of that last
  separator. \<open>1.234,56\<close> parses to 1234.56.
\<close>

theorem mixed_heuristic:
  assumes "inputDecimalSeparator (numberFormat cfg) = Some ''auto''"
    and "smartDetection (numberFormat cfg)"
    and "CHR '','' \<in> set (filter keptChar text)"
    and "CHR ''.'' \<in> set (filter keptChar text)"
  shows "(\<forall>before after dec other.
            filter keptChar text = before @ dec # after
            \<and> ((dec = CHR '','' \<and> other = CHR ''.'') \<or> (dec = CHR ''.'' \<and> other = CHR '',''))
            \<and> dec \<notin> set after \<and> other \<notin> set after \<longrightarrow>
              extractNumber cfg text = parseFloat (removeAll_char other before @ ''.'' @ after))
         \<and> extractNumber cfg ''1.234,56'' = Fin 1234.56"
proof -
  have ex: "extractNumber cfg text = parseWithMixedSeparators (filter keptChar text)"
    by (simp only: extractNumber_auto[OF assms(1,2)] smart_mixed[OF assms(3,4)])
  have v: "extractNumber cfg ''1.234,56'' = Fin 1234.56"
    unfolding extractNumber_auto[OF assms(1,2)] by code_simp
  have g: "extractNumber cfg text = parseFloat (removeAll_char other before @ ''.'' @ after)"
    if eq: "filter keptChar text = before @ dec # after"
      and which: "(dec = CHR '','' \<and> other = CHR ''.'') \<or> (dec = CHR ''.'' \<and> other = CHR '','')"
      and nd: "dec \<notin> set after" and no: "other \<notin> set after"
    for before after dec other
  proof -
    have "other \<in> set (before @ dec # after)"
      using assms(3,4) which unfolding eq by blast
    then have ob: "other \<in> set before" using which no by auto
    from which show ?thesis
    proof
      assume w: "dec = CHR '','' \<and> other = CHR ''.''"
      show ?thesis using mixed_comma_last[of after before] nd no ob w
        by (simp add: ex eq)
    next
      assume w: "dec = CHR ''.'' \<and> other = CHR '',''"
      show ?thesis using mixed_dot_last[of after before] nd no ob w
        by (simp add: ex eq)
    qed
  qed
  show ?thesis using g v by blast
qed

theorem mixed_heuristic_witness:
  "extractNumber defaults ''Kz 1.234.567,89'' = parseFloat ''1234567.89''
   \<and> extractNumber defaults ''$1,234.5'' = parseFloat ''1234.5''"
proof -
  have auto: "inputDecimalSeparator (numberFormat defaults) = Some ''auto''"
    "smartDetection (numberFormat defaults)"
    by (simp_all add: defaults_def defaultNumberFormat_def)
  have 1: "extractNumber defaults ''Kz 1.234.567,89'' = parseFloat (''1234567'' @ ''.'' @ ''89'')"
    using mixed_heuristic[OF auto, of "''Kz 1.234.567,89''", THEN conjunct1, rule_format,
        of "''1.234.567''" "CHR '',''" "''89''" "CHR ''.''"]
    by (simp add: keptChar_def isDigit_def removeAll_char_def)
  have 2: "extractNumber defaults ''$1,234.5'' = parseFloat (''1234'' @ ''.'' @ ''5'')"
    using mixed_heuristic[OF auto, of "''$1,234.5''", THEN conjunct1, rule_format,
        of "''1,234''" "CHR ''.''" "''5''" "CHR '',''"]
    by (simp add: keptChar_def isDigit_def removeAll_char_def)
  show ?thesis using 1 2 by simp
qed

section \<open>Rendering the rounded value\<close>

lemma floor_int_half: "\<lfloor>(of_int n :: rat) + 1 / 2\<rfloor> = n"
  by (rule floor_unique) simp_all

lemma Math_round_isDouble: "isDouble (of_int \<lfloor>toDouble x + 1 / 2\<rfloor>)"
proof (cases "2 ^ 52 \<le> \<bar>toDouble x\<bar>")
  case True
  from isDouble_large_int[OF toDouble_isDouble True] obtain k where k: "toDouble x = of_int k"
    by blast
  have "isDouble (of_int k)" using toDouble_isDouble[of x] by (simp only: k)
  then show ?thesis by (simp only: k floor_int_half)
next
  case False
  define k where "k = \<lfloor>toDouble x + 1 / 2\<rfloor>"
  have "of_int k \<le> toDouble x + 1 / 2" "toDouble x + 1 / 2 < of_int k + 1"
    unfolding k_def by linarith+
  with False have "(of_int k :: rat) < of_int (2 ^ 53)" "(of_int (- (2 ^ 53)) :: rat) < of_int k"
    by simp_all
  then have "k < 2 ^ 53" "- (2 ^ 53) < k" by (simp_all only: of_int_less_iff)
  then have "\<bar>k\<bar> \<le> 2 ^ 53" by simp
  from isDouble_int[OF this] show ?thesis by (simp only: k_def)
qed

lemma Math_round_idem: "Math_round (Math_round v) = Math_round v"
  by (cases v) (simp_all add: floor_int_half toDouble_of_double[OF Math_round_isDouble])

lemma toFixedNumber_idem:
  assumes "toFixedNumber v d = Inr r"
  shows "toFixedNumber r d = Inr r"
proof (cases v)
  case (Fin x)
  from assms have d: "\<not> 100 < d" by (auto simp: toFixedNumber_def split: if_splits)
  define w where "w = toDouble x"
  have dw: "isDouble w" unfolding w_def by (rule toDouble_isDouble)
  show ?thesis
  proof (cases "10 ^ 21 \<le> \<bar>w\<bar>")
    case True
    with assms Fin d have "r = Fin w" by (simp add: toFixedNumber_def w_def Let_def)
    with True d show ?thesis by (simp add: toFixedNumber_def toDouble_of_double[OF dw])
  next
    case False
    define y where "y = sgn w * of_int \<lfloor>\<bar>w\<bar> * 10 ^ d + 1 / 2\<rfloor> / 10 ^ d"
    have r: "r = Fin (toDouble y)"
      using assms Fin d False by (simp add: toFixedNumber_def y_def w_def Let_def)
    from False have wb: "\<bar>w\<bar> < 10 ^ 21" by simp
    from toFixed_grid_stable[OF dw wb, of d]
    have "\<bar>toDouble y\<bar> < 10 ^ 21"
      and "sgn (toDouble y) * of_int \<lfloor>\<bar>toDouble y\<bar> * 10 ^ d + 1 / 2\<rfloor> / 10 ^ d = y"
      unfolding y_def by blast+
    then show ?thesis using d by (simp add: r toFixedNumber_def Let_def)
  qed
qed (use assms in \<open>auto simp: toFixedNumber_def split: if_splits\<close>)

lemma roundedValue_idem:
  assumes "roundedValue v f = Inr r"
  shows "roundedValue r f = Inr r"
proof (cases "0 < decimals f \<or> showDecimals f")
  case True
  with assms have "toFixedNumber v (decimals f) = Inr r" by (simp add: roundedValue_def)
  from toFixedNumber_idem[OF this] True show ?thesis by (simp add: roundedValue_def)
next
  case False
  with assms have "r = Math_round v" by (simp add: roundedValue_def)
  with False show ?thesis by (simp add: roundedValue_def Math_round_idem)
qed

text \<open>
C9, as far as it holds. For every format with \<open>decimals\<close> at most 100 and every
  value \<open>v\<close>, the rounding of \<open>formatCustomNumber\<close> (to \<open>decimals\<close> places, or to
  the nearest integer when \<open>decimals\<close> is 0 and \<open>showDecimals\<close> is off) gives a value
  \<open>r\<close> that the same rounding leaves unchanged, so \<open>formatCustomNumber\<close> renders
  \<open>r\<close> as it renders \<open>v\<close>; and so does \<open>formatValue\<close> when \<open>formatNumber\<close> is on
  and the format does not abbreviate. With \<open>abbreviate\<close> set the claim fails, as the
  last theorem shows: \<open>999.96\<close> stays below the first tier and renders as \<open>1 000\<close>,
  while its rounded value \<open>1000\<close> reaches the tier and renders as \<open>1,0K\<close>.
\<close>

theorem rounded_value_renders_alike:
  assumes "decimals (numberFormat cfg) \<le> 100"
  shows "\<exists>r. roundedValue v (numberFormat cfg) = Inr r
           \<and> roundedValue r (numberFormat cfg) = Inr r
           \<and> formatCustomNumber r (numberFormat cfg) = formatCustomNumber v (numberFormat cfg)
           \<and> (formatNumber cfg \<and> \<not> abbreviate (numberFormat cfg) \<longrightarrow>
                 formatValue r cfg = formatValue v cfg)"
proof -
  have "\<exists>r. roundedValue v (numberFormat cfg) = Inr r"
    using assms by (simp add: roundedValue_def toFixedNumber_def)
  then obtain r where r: "roundedValue v (numberFormat cfg) = Inr r" by blast
  have i: "roundedValue r (numberFormat cfg) = Inr r" by (rule roundedValue_idem[OF r])
  have c: "formatCustomNumber r (numberFormat cfg) = formatCustomNumber v (numberFormat cfg)"
    unfolding formatCustomNumber_def by (simp only: r i)
  have "formatNumber cfg \<and> \<not> abbreviate (numberFormat cfg) \<longrightarrow>
          formatValue r cfg = formatValue v cfg"
    using c by (simp add: formatValue_def Let_def)
  with r i c show ?thesis by blast
qed

theorem rounded_value_renders_alike_witness:
  "roundedValue (Fin 1.005) (preset '','' ''.'' 2 True False) = Inr (Fin 1)
   \<and> roundedValue (Fin 1) (preset '','' ''.'' 2 True False) = Inr (Fin 1)
   \<and> formatCustomNumber (Fin 1) (preset '','' ''.'' 2 True False)
       = formatCustomNumber (Fin 1.005) (preset '','' ''.'' 2 True False)
   \<and> formatValue (Fin 1) (defaults\<lparr>numberFormat := preset '','' ''.'' 2 True False\<rparr>)
       = formatValue (Fin 1.005) (defaults\<lparr>numberFormat := preset '','' ''.'' 2 True False\<rparr>)
   \<and> formatValue (Fin 1.005) (defaults\<lparr>numberFormat := preset '','' ''.'' 2 True False\<rparr>)
       = Inr ''1.00''"
proof -
  define cfg where "cfg = defaults\<lparr>numberFormat := preset '','' ''.'' 2 True False\<rparr>"
  have nf: "numberFormat cfg = preset '','' ''.'' 2 True False" by (simp add: cfg_def)
  have d: "decimals (numberFormat cfg) \<le> 100" by (simp add: nf preset_def)
  have h: "roundedValue (Fin 1.005) (numberFormat cfg) = Inr (Fin 1)"
    unfolding nf by code_simp
  have v: "formatValue (Fin 1.005) cfg = Inr ''1.00''"
    unfolding cfg_def by code_simp
  have f: "formatNumber cfg \<and> \<not> abbreviate (numberFormat cfg)"
    by (simp add: cfg_def defaults_def preset_def)
  from rounded_value_renders_alike[OF d, of "Fin 1.005"] obtain r
    where 1: "roundedValue (Fin 1.005) (numberFormat cfg) = Inr r"
      and 2: "roundedValue r (numberFormat cfg) = Inr r"
      and 3: "formatCustomNumber r (numberFormat cfg) = formatCustomNumber (Fin 1.005) (numberFormat cfg)"
      and 4: "formatNumber cfg \<and> \<not> abbreviate (numberFormat cfg) \<longrightarrow>
                formatValue r cfg = formatValue (Fin 1.005) cfg"
    by blast
  from 1 h have r: "r = Fin 1" by simp
  have "roundedValue (Fin 1.005) (numberFormat cfg) = Inr (Fin 1)
      \<and> roundedValue (Fin 1) (numberFormat cfg) = Inr (Fin 1)
      \<and> formatCustomNumber (Fin 1) (numberFormat cfg) = formatCustomNumber (Fin 1.005) (numberFormat cfg)
      \<and> formatValue (Fin 1) cfg = formatValue (Fin 1.005) cfg
      \<and> formatValue (Fin 1.005) cfg = Inr ''1.00''"
    using h 2 3 4 f v unfolding r by blast
  then show ?thesis unfolding nf unfolding cfg_def .
qed

theorem rounded_value_renders_alike_counterexample:
  "roundedValue (Fin 999.96) (defaultNumberFormat\<lparr>abbreviate := True, decimals := 1\<rparr>)
     = Inr (Fin 1000)
   \<and> formatValue (Fin 999.96)
        (defaults\<lparr>numberFormat := defaultNumberFormat\<lparr>abbreviate := True, decimals := 1\<rparr>\<rparr>)
       = Inr ''1 000''
   \<and> formatValue (Fin 1000)
        (defaults\<lparr>numberFormat := defaultNumberFormat\<lparr>abbreviate := True, decimals := 1\<rparr>\<rparr>)
       = Inr ''1,0K''"
  by code_simp

section \<open>A dangling decimal separator\<close>

lemma digitChar_isDigit: "isDigit (digitChar d)"
proof -
  define m where "m = nat (d mod 10)"
  have "m < 10" by (simp add: m_def)
  then have "m = 0 \<or> m = 1 \<or> m = 2 \<or> m = 3 \<or> m = 4 \<or> m = 5 \<or> m = 6 \<or> m = 7
      \<or> m = 8 \<or> m = 9" by arith
  then have "isDigit (''0123456789'' ! m)" by (auto simp: isDigit_def)
  then show ?thesis by (simp add: digitChar_def m_def)
qed

lemma natDigits_digits: "\<forall>c\<in>set (natDigits n). isDigit c"
proof (induction n rule: natDigits.induct)
  case (1 n)
  show ?case
  proof (cases "n < 10")
    case True
    then show ?thesis by (subst natDigits.simps) (simp add: digitChar_isDigit)
  next
    case False
    with 1 show ?thesis by (subst natDigits.simps) (simp add: digitChar_isDigit)
  qed
qed

lemma natDigits_no_dot: "CHR ''.'' \<notin> set (natDigits n)"
  using natDigits_digits[of n] dot_not_digit by blast

lemma plainDecimal_int: "plainDecimal (of_int k) = natDigits k"
  by (simp add: plainDecimal_def stripTrailingZeros_def eval_nat_numeral)

lemma shortestFrom_int_step:
  assumes "isDouble (of_int i)" "0 < i" "i < 10 ^ 21"
  shows "(\<exists>m. shortestFrom (of_int i) (int n) = of_int m \<and> 0 < m \<and> m \<le> 10 ^ 21)
         \<or> (0 < n \<and> shortestFrom (of_int i) (int n) = shortestFrom (of_int i) (int n - 1))"
proof -
  define q :: int where "q = 10 ^ n"
  define s where "s = i div q"
  define x :: rat where "x = of_int i"
  define L :: rat where "L = of_int s * of_int q"
  define H :: rat where "H = of_int (s + 1) * of_int q"
  have q0: "0 < q" by (simp add: q_def)
  have pw: "(10::rat) powi int n = of_int q" by (simp add: q_def)
  have fl: "\<lfloor>x / of_int q\<rfloor> = s" by (simp add: s_def x_def floor_divide_of_int_eq)
  have s0: "0 \<le> s" using assms(2) q0 by (simp add: s_def pos_imp_zdiv_nonneg_iff)
  have "s * q + i mod q = i" by (simp add: s_def)
  moreover have "0 \<le> i mod q" using q0 by simp
  ultimately have lo: "s * q \<le> i" by linarith
  have Li: "L = of_int (s * q)" and Hi: "H = of_int ((s + 1) * q)" by (simp_all add: L_def H_def)
  have Lx: "L \<le> x" unfolding Li x_def using lo by (simp only: of_int_le_iff)
  have xb: "x < 10 ^ 21"
  proof -
    from assms(3) have "(of_int i :: rat) < of_int (10 ^ 21)" by (simp only: of_int_less_iff)
    then show ?thesis by (simp add: x_def)
  qed
  have x0: "0 < x" using assms(2) by (simp add: x_def)
  define C where
    "C \<longleftrightarrow> toDouble L = x \<and> (\<not> toDouble H = x \<or> x - L < H - x \<or> (x - L = H - x \<and> even s))"
  have E: "shortestFrom x (int n) =
      (if C then L
       else if toDouble H = x then H
       else if int n \<le> - 1074 then x
       else shortestFrom x (int n - 1))"
    by (subst shortestFrom.simps) (simp only: Let_def pw fl L_def H_def C_def)
  have goodL: "\<exists>m. L = of_int m \<and> 0 < m \<and> m \<le> 10 ^ 21" if "toDouble L = x"
  proof -
    have "0 < s * q"
    proof (rule ccontr)
      assume "\<not> 0 < s * q"
      then have "s * q \<le> 0" by simp
      then have "(of_int (s * q) :: rat) \<le> of_int 0" by (simp only: of_int_le_iff)
      then have "L \<le> 0" by (simp add: Li)
      from toDouble_le_double[OF isDouble_zero this] that x0 show False by simp
    qed
    moreover have "s * q \<le> 10 ^ 21" using lo assms(3) by simp
    ultimately show ?thesis using Li by blast
  qed
  have goodH: "\<exists>m. H = of_int m \<and> 0 < m \<and> m \<le> 10 ^ 21" if "toDouble H = x"
  proof -
    have "0 < (s + 1) * q" using s0 q0 by simp
    moreover have "(s + 1) * q \<le> 10 ^ 21"
    proof (rule ccontr)
      assume "\<not> (s + 1) * q \<le> 10 ^ 21"
      then have "10 ^ 21 \<le> (s + 1) * q" by simp
      then have "(of_int (10 ^ 21) :: rat) \<le> of_int ((s + 1) * q)" by (simp only: of_int_le_iff)
      then have "10 ^ 21 \<le> H" by (simp add: Hi)
      from toDouble_ge_double[OF isDouble_1e21 this] that xb show False by simp
    qed
    ultimately show ?thesis using Hi by blast
  qed
  show ?thesis
  proof (cases C)
    case True
    then have "shortestFrom x (int n) = L" unfolding E by simp
    moreover from True have "toDouble L = x" by (simp add: C_def)
    ultimately show ?thesis using goodL unfolding x_def by auto
  next
    case c: False
    show ?thesis
    proof (cases "toDouble H = x")
      case True
      with c have "shortestFrom x (int n) = H" unfolding E by simp
      with goodH True show ?thesis unfolding x_def by auto
    next
      case False
      have "0 < n"
      proof (rule ccontr)
        assume "\<not> 0 < n"
        then have "q = 1" by (simp add: q_def)
        then have "L = x" "H = x + 1" by (simp_all add: L_def H_def s_def x_def)
        moreover have "toDouble x = x" unfolding x_def by (rule toDouble_of_double[OF assms(1)])
        ultimately show False using c by (simp add: C_def)
      qed
      moreover have "\<not> int n \<le> - 1074" by simp
      ultimately have "0 < n \<and> shortestFrom x (int n) = shortestFrom x (int n - 1)"
        unfolding E using c False by simp
      then show ?thesis unfolding x_def by blast
    qed
  qed
qed

lemma shortestFrom_int:
  assumes "isDouble (of_int i)" "0 < i" "i < 10 ^ 21"
  shows "\<exists>m. shortestFrom (of_int i) (int n) = of_int m \<and> 0 < m \<and> m \<le> 10 ^ 21"
proof (induction n)
  case 0
  from shortestFrom_int_step[OF assms, of 0] show ?case by simp
next
  case (Suc n)
  have eq: "int (Suc n) - 1 = int n" by simp
  from shortestFrom_int_step[OF assms, of "Suc n"] show ?case
  proof
    assume "\<exists>m. shortestFrom (of_int i) (int (Suc n)) = of_int m \<and> 0 < m \<and> m \<le> 10 ^ 21"
    then show ?thesis .
  next
    assume "0 < Suc n
      \<and> shortestFrom (of_int i) (int (Suc n)) = shortestFrom (of_int i) (int (Suc n) - 1)"
    then have "shortestFrom (of_int i) (int (Suc n)) = shortestFrom (of_int i) (int n)"
      by (simp only: eq)
    with Suc show ?thesis by (simp only:)
  qed
qed

text \<open>An integer double up to \<open>1e21\<close> prints as an integer up to \<open>1e21\<close>.\<close>

lemma shortestDecimal_int:
  assumes "isDouble (of_int i)" "0 < i" "i \<le> 10 ^ 21"
  shows "\<exists>m. shortestDecimal (of_int i) = of_int m \<and> 0 < m \<and> m \<le> 10 ^ 21"
proof (cases "i = 10 ^ 21")
  case True
  have "shortestDecimal (of_int (10 ^ 21)) = of_int (10 ^ 21)" by code_simp
  then show ?thesis unfolding True by (intro exI[of _ "10 ^ 21"]) simp
next
  case False
  with assms(3) have "i < 10 ^ 21" by simp
  from shortestFrom_int[OF assms(1,2) this] show ?thesis
    unfolding shortestDecimal_def by blast
qed

lemma positiveToString_int_no_dot:
  assumes m: "0 < m" "m \<le> 10 ^ 21"
  shows "CHR ''.'' \<notin> set (positiveToString (of_int m))"
proof (cases "m = 10 ^ 21")
  case True
  have "positiveToString (of_int ((10::int) ^ 21)) = ''1e+21''" by code_simp
  then show ?thesis by (simp add: True)
next
  case False
  with m have lt: "m < 10 ^ 21" by simp
  then have a: "\<not> (10 ^ 21 \<le> (of_int m :: rat))"
    by (metis of_int_le_iff of_int_numeral of_int_power not_le)
  have "(1::rat) \<le> of_int m" using m by simp
  then have b: "\<not> ((of_int m :: rat) < 1 / 10 ^ 6)" by simp
  show ?thesis
    unfolding positiveToString_def using a b natDigits_no_dot
    by (simp add: plainDecimal_int)
qed

lemma toString_int_no_dot:
  assumes "\<bar>k\<bar> \<le> 10 ^ 21"
  shows "CHR ''.'' \<notin> set (toString (Fin (of_int k)))"
proof -
  from toDouble_int_1e21[OF assms] obtain j
    where j: "\<bar>j\<bar> \<le> 10 ^ 21" and t: "toDouble (of_int k) = of_int j" by blast
  have dj: "isDouble (of_int j)" using toDouble_isDouble[of "of_int k"] by (simp only: t)
  show ?thesis
  proof (cases "j = 0")
    case True then show ?thesis by (simp add: t)
  next
    case False
    show ?thesis
    proof (cases "j < 0")
      case True
      have "isDouble (of_int (- j))" using isDouble_neg[OF dj] by simp
      moreover from True j have "0 < - j" "- j \<le> 10 ^ 21" by auto
      ultimately obtain m where "shortestDecimal (of_int (- j)) = of_int m" "0 < m" "m \<le> 10 ^ 21"
        using shortestDecimal_int by blast
      with positiveToString_int_no_dot[of m] True show ?thesis by (simp add: t)
    next
      case f: False
      with False j have "0 < j" "j \<le> 10 ^ 21" by auto
      with dj obtain m where "shortestDecimal (of_int j) = of_int m" "0 < m" "m \<le> 10 ^ 21"
        using shortestDecimal_int by blast
      with positiveToString_int_no_dot[of m] f False show ?thesis by (simp add: t)
    qed
  qed
qed

lemma toFixed_zero_places:
  assumes "\<bar>v\<bar> < 10 ^ 21"
  shows "\<exists>k. \<bar>k\<bar> \<le> 10 ^ 21 \<and> toFixedNumber (Fin v) 0 = Inr (Fin (of_int k))"
proof -
  define w where "w = toDouble v"
  from assms have "\<bar>v\<bar> \<le> 10 ^ 21" by simp
  from toDouble_le_1e21[OF this] have wle: "\<bar>w\<bar> \<le> 10 ^ 21" by (simp add: w_def)
  show ?thesis
  proof (cases "10 ^ 21 \<le> \<bar>w\<bar>")
    case True
    with wle have "\<bar>w\<bar> = 10 ^ 21" by simp
    then have "w = of_int (10 ^ 21) \<or> w = of_int (- (10 ^ 21))" by (auto simp: abs_if split: if_splits)
    moreover have "toFixedNumber (Fin v) 0 = Inr (Fin w)"
      using True by (simp add: toFixedNumber_def w_def Let_def)
    ultimately have "toFixedNumber (Fin v) 0 = Inr (Fin (of_int (10 ^ 21)))
        \<or> toFixedNumber (Fin v) 0 = Inr (Fin (of_int (- (10 ^ 21))))" by (simp only:) blast
    moreover have "\<bar>(10::int) ^ 21\<bar> \<le> 10 ^ 21" "\<bar>- ((10::int) ^ 21)\<bar> \<le> 10 ^ 21" by simp_all
    ultimately show ?thesis by blast
  next
    case False
    define n where "n = \<lfloor>\<bar>w\<bar> + 1 / 2\<rfloor>"
    have n0: "0 \<le> n" unfolding n_def by (simp add: floor_le_iff)
    have "\<bar>w\<bar> + 1 / 2 < of_int (10 ^ 21) + 1" using False by simp
    then have "n < 10 ^ 21 + 1" unfolding n_def by (simp only: floor_less_iff of_int_add of_int_1)
    then have n1: "n \<le> 10 ^ 21" by simp
    define m where "m = (if w < 0 then - n else if w = 0 then 0 else n)"
    have m: "\<bar>m\<bar> \<le> 10 ^ 21" using n0 n1 by (simp add: m_def)
    have "sgn w * of_int n = of_int m" by (simp add: m_def sgn_if)
    then have t: "toFixedNumber (Fin v) 0 = Inr (Fin (toDouble (of_int m)))"
      using False by (simp add: toFixedNumber_def n_def w_def Let_def)
    from toDouble_int_1e21[OF m] obtain k
      where "\<bar>k\<bar> \<le> 10 ^ 21" "toDouble (of_int m) = of_int k" by blast
    with t show ?thesis by auto
  qed
qed

text \<open>
C10, for magnitudes below \<open>1e21\<close>. With \<open>showDecimals\<close> on and \<open>decimals\<close> 0,
  \<open>formatCustomNumber\<close> renders a finite value of magnitude below \<open>1e21\<close> as the
  text of the rounded integer (grouped when the format asks for it), which has no point,
  followed by the decimal separator and no fraction digit: the output ends with a
  dangling separator, as in \<open>5,\<close>. From \<open>1e21\<close> on the number prints in exponent
  notation and the claim fails, as the last theorem shows for \<open>1.5e21\<close>.
\<close>

theorem dangling_decimal_separator:
  assumes "showDecimals f" and "decimals f = 0" and "\<bar>v\<bar> < 10 ^ 21"
  shows "\<exists>r. roundedValue (Fin v) f = Inr r
           \<and> CHR ''.'' \<notin> set (toString r)
           \<and> formatCustomNumber (Fin v) f =
               Inr ((if jsGe (Math_abs r) (Fin 1000) \<and> thousandsSeparator f \<noteq> []
                       then addThousandsSeparator (toString r) (thousandsSeparator f)
                     else toString r)
                    @ decimalSeparator f)"
proof -
  from toFixed_zero_places[OF assms(3)] obtain k
    where k: "\<bar>k\<bar> \<le> 10 ^ 21" and r: "toFixedNumber (Fin v) 0 = Inr (Fin (of_int k))"
    by blast
  have rv: "roundedValue (Fin v) f = Inr (Fin (of_int k))"
    using assms(1,2) r by (simp add: roundedValue_def)
  have nd: "CHR ''.'' \<notin> set (toString (Fin (of_int k)))"
    by (rule toString_int_no_dot[OF k])
  have sp: "split_str CHR ''.'' (toString (Fin (of_int k))) = [toString (Fin (of_int k))]"
    by (rule split_str_none[OF nd])
  have "formatCustomNumber (Fin v) f =
               Inr ((if jsGe (Math_abs (Fin (of_int k))) (Fin 1000) \<and> thousandsSeparator f \<noteq> []
                       then addThousandsSeparator (toString (Fin (of_int k))) (thousandsSeparator f)
                     else toString (Fin (of_int k)))
                    @ decimalSeparator f)"
    unfolding formatCustomNumber_def rv sum.case Let_def sp
    using assms(1,2) by (simp add: nth_opt_def truthy_def padEnd_def del: toString.simps)
  with rv nd show ?thesis by blast
qed

theorem dangling_decimal_separator_witness:
  "formatCustomNumber (Fin 5) (preset '' '' '','' 0 True False) = Inr ''5,''
   \<and> formatCustomNumber (Fin 1234567) (preset '' '' '','' 0 True False) = Inr ''1 234 567,''"
proof -
  have a: "showDecimals (preset '' '' '','' 0 True False)" "decimals (preset '' '' '','' 0 True False) = 0"
    by (simp_all add: preset_def)
  have r5: "roundedValue (Fin 5) (preset '' '' '','' 0 True False) = Inr (Fin 5)" by code_simp
  have r7: "roundedValue (Fin 1234567) (preset '' '' '','' 0 True False) = Inr (Fin 1234567)"
    by code_simp
  have t5: "toString (Fin 5) = ''5''" by code_simp
  have t7: "addThousandsSeparator (toString (Fin 1234567)) '' '' = ''1 234 567''" by code_simp
  have b5: "\<bar>5::rat\<bar> < 10 ^ 21" by simp
  have b7: "\<bar>1234567::rat\<bar> < 10 ^ 21" by simp
  have 1: "formatCustomNumber (Fin 5) (preset '' '' '','' 0 True False) = Inr ''5,''"
    using dangling_decimal_separator[OF a b5] r5 t5
    by (auto simp: jsGe_def preset_def)
  have 2: "formatCustomNumber (Fin 1234567) (preset '' '' '','' 0 True False) = Inr ''1 234 567,''"
    using dangling_decimal_separator[OF a b7] r7 t7
    by (auto simp: jsGe_def preset_def)
  show ?thesis using 1 2 by simp
qed

theorem dangling_decimal_separator_counterexample:
  "formatCustomNumber (Fin 1500000000000000000000) (preset '' '' '','' 0 True False)
     = Inr ''1,5e+21''"
  by code_simp

section \<open>Values that are not finite\<close>

lemma addThousands_nonfinite:
  "\<not> isFinite v \<Longrightarrow> addThousandsSeparator (toString v) sep = toString v"
  by (cases v) (simp_all add: isFinite_def addThousandsSeparator_def isDigit_def)

lemma split_nonfinite:
  "\<not> isFinite v \<Longrightarrow> split_str CHR ''.'' (toString v) = [toString v]"
  by (cases v) (simp_all add: isFinite_def)

lemma roundedValue_nonfinite:
  "\<not> isFinite v \<Longrightarrow> decimals f \<le> 100 \<Longrightarrow> roundedValue v f = Inr v"
  by (cases v) (simp_all add: isFinite_def roundedValue_def toFixedNumber_def)

lemma formatCustomNumber_nonfinite:
  assumes "\<not> isFinite v" "decimals f \<le> 100"
  shows "formatCustomNumber v f =
     Inr (toString v @ (if showDecimals f
                           then decimalSeparator f @ replicate (decimals f) CHR ''0'' else []))"
  unfolding formatCustomNumber_def roundedValue_nonfinite[OF assms] sum.case Let_def
    split_nonfinite[OF assms(1)]
  by (simp add: nth_opt_def truthy_def padEnd_def addThousands_nonfinite[OF assms(1)]
      del: toString.simps)

text \<open>
C4, as the code has it. For every format with \<open>decimals\<close> at most 100, rendering a
  value that is not finite raises no error, and the output is not \<open>0\<close> but the text of
  the value itself, \<open>NaN\<close>, \<open>Infinity\<close> or \<open>-Infinity\<close>, followed by the decimal
  separator and \<open>decimals\<close> zeros when \<open>showDecimals\<close> is on. That is the output
  of \<open>formatCustomNumber\<close>. For a format that does not abbreviate, \<open>formatValue\<close>
  gives that same output when \<open>formatNumber\<close> is on, and the bare text of the value,
  with no separator and no zeros, when \<open>formatNumber\<close> is off.
\<close>

theorem nonfinite_renders_as_itself:
  assumes "\<not> isFinite v" and "decimals (numberFormat cfg) \<le> 100"
  shows "formatCustomNumber v (numberFormat cfg) =
           Inr (toString v @ (if showDecimals (numberFormat cfg)
                                then decimalSeparator (numberFormat cfg)
                                     @ replicate (decimals (numberFormat cfg)) CHR ''0''
                              else []))
         \<and> (\<not> abbreviate (numberFormat cfg) \<longrightarrow>
              formatValue v cfg =
                (if formatNumber cfg then formatCustomNumber v (numberFormat cfg)
                 else Inr (toString v)))
         \<and> toString v \<in> {''NaN'', ''Infinity'', ''-Infinity''}"
proof -
  have r: "Math_round v = v" using assms(1) by (cases v) (simp_all add: isFinite_def)
  have t: "toString v \<in> {''NaN'', ''Infinity'', ''-Infinity''}"
    using assms(1) by (cases v) (simp_all add: isFinite_def)
  show ?thesis
    using t
    by (simp add: formatCustomNumber_nonfinite[OF assms(1,2)] formatValue_def Let_def r
        del: toString.simps)
qed

theorem nonfinite_renders_as_itself_witness:
  "formatValue NaN defaults = Inr ''NaN''
   \<and> formatCustomNumber NegInf (preset '','' ''.'' 2 True False) = Inr ''-Infinity.00''"
proof -
  have n: "\<not> isFinite NaN" "\<not> isFinite NegInf" by (simp_all add: isFinite_def)
  have d: "decimals (numberFormat defaults) \<le> 100"
    by (simp add: defaults_def defaultNumberFormat_def)
  have 1: "formatValue NaN defaults = Inr ''NaN''"
    using nonfinite_renders_as_itself[OF n(1) d]
    by (simp add: defaults_def defaultNumberFormat_def)
  have e: "decimals (numberFormat (defaults\<lparr>numberFormat := preset '','' ''.'' 2 True False\<rparr>)) \<le> 100"
    by (simp add: preset_def)
  have 2: "formatCustomNumber NegInf (preset '','' ''.'' 2 True False) = Inr ''-Infinity.00''"
    using nonfinite_renders_as_itself[OF n(2) e]
    by (simp add: preset_def eval_nat_numeral)
  show ?thesis using 1 2 by simp
qed

theorem nonfinite_renders_as_itself_counterexample:
  "formatValue NaN defaults = Inr ''NaN''
   \<and> formatCustomNumber NaN defaultNumberFormat = Inr ''NaN''
   \<and> formatCustomNumber PosInf defaultNumberFormat = Inr ''Infinity''
   \<and> formatCustomNumber NegInf defaultNumberFormat = Inr ''-Infinity''"
  by code_simp

section \<open>Construction never rejects a format\<close>

text \<open>
C5, as the code has it. The constructor checks nothing: whatever number format the
  options carry, the construction succeeds and the configuration holds that format
  unchanged, also when its thousands separator equals its decimal separator. The two
  separators differ in the default format and in each of the nine presets.
\<close>

theorem construction_accepts_any_format:
  "(\<forall>opts f. numberFormat_opt opts = Some f \<longrightarrow>
       (\<exists>cfg. constructor opts = Inr cfg \<and> numberFormat cfg = f))
   \<and> thousandsSeparator (numberFormat defaults) \<noteq> decimalSeparator (numberFormat defaults)
   \<and> (\<forall>p\<in>set presetList. thousandsSeparator (snd p) \<noteq> decimalSeparator (snd p))"
proof -
  have a: "\<exists>cfg. constructor opts = Inr cfg \<and> numberFormat cfg = f"
    if "numberFormat_opt opts = Some f" for opts f
    using that by (simp add: constructor_def mergeConfig_def override_def)
  have b: "thousandsSeparator (numberFormat defaults) \<noteq> decimalSeparator (numberFormat defaults)"
    by (simp add: defaults_def defaultNumberFormat_def)
  have c: "\<forall>p\<in>set presetList. thousandsSeparator (snd p) \<noteq> decimalSeparator (snd p)"
    by (simp add: presetList_def preset_def)
  show ?thesis using a b c by blast
qed

theorem construction_accepts_any_format_witness:
  "(\<exists>cfg. constructor (noOptions\<lparr>numberFormat_opt := Some (preset '','' '','' 1 False False)\<rparr>) = Inr cfg
          \<and> numberFormat cfg = preset '','' '','' 1 False False)
   \<and> (''en-us'', preset '','' ''.'' 0 False False) \<in> set presetList
   \<and> thousandsSeparator (preset '','' ''.'' 0 False False)
       \<noteq> decimalSeparator (preset '','' ''.'' 0 False False)"
proof -
  have o: "numberFormat_opt (noOptions\<lparr>numberFormat_opt := Some (preset '','' '','' 1 False False)\<rparr>)
           = Some (preset '','' '','' 1 False False)" by simp
  have m: "(''en-us'', preset '','' ''.'' 0 False False) \<in> set presetList"
    by (simp add: presetList_def)
  from construction_accepts_any_format
  have 1: "\<exists>cfg. constructor (noOptions\<lparr>numberFormat_opt := Some (preset '','' '','' 1 False False)\<rparr>) = Inr cfg
          \<and> numberFormat cfg = preset '','' '','' 1 False False"
    using o by blast
  from construction_accepts_any_format m
  have 2: "thousandsSeparator (snd (''en-us'', preset '','' ''.'' 0 False False))
       \<noteq> decimalSeparator (snd (''en-us'', preset '','' ''.'' 0 False False))"
    by blast
  show ?thesis using 1 2 m by simp
qed

theorem construction_accepts_any_format_counterexample:
  "constructor (noOptions\<lparr>numberFormat_opt := Some (preset '','' '','' 1 False False)\<rparr>)
     = Inr (defaults\<lparr>numberFormat := preset '','' '','' 1 False False\<rparr>)
   \<and> thousandsSeparator (preset '','' '','' 1 False False)
       = decimalSeparator (preset '','' '','' 1 False False)
   \<and> formatValue (Fin 1234.5) (defaults\<lparr>numberFormat := preset '','' '','' 1 False False\<rparr>)
       = Inr ''1,234,5''"
proof -
  have a: "constructor (noOptions\<lparr>numberFormat_opt := Some (preset '','' '','' 1 False False)\<rparr>)
     = Inr (defaults\<lparr>numberFormat := preset '','' '','' 1 False False\<rparr>)"
    by (simp add: constructor_def mergeConfig_def override_def noOptions_def defaults_def)
  have b: "formatValue (Fin 1234.5) (defaults\<lparr>numberFormat := preset '','' '','' 1 False False\<rparr>)
       = Inr ''1,234,5''"
    by code_simp
  show ?thesis using a b by (simp add: preset_def)
qed

section \<open>Abbreviating a negative value\<close>

text \<open>
  C3. The claim asks for a single leading minus sign on an abbreviated negative value.
  \<open>abbreviateNumber\<close> computes the sign text and the absolute value, but divides the
  signed value, so the formatted quotient carries a minus sign of its own and the sign text
  is put in front of it: \<open>-1500\<close> renders as \<open>--1,5K\<close> under the abbreviating format
  of the documentation, while \<open>1500\<close> renders as \<open>1,5K\<close>.
\<close>

theorem abbreviated_negative_double_sign:
  "abbreviateNumber (Fin (- 1500)) (defaultNumberFormat\<lparr>abbreviate := True, decimals := 1\<rparr>)
     = Inr ''--1,5K''
   \<and> formatValue (Fin (- 1500))
        (defaults\<lparr>numberFormat := defaultNumberFormat\<lparr>abbreviate := True, decimals := 1\<rparr>\<rparr>)
     = Inr ''--1,5K''
   \<and> formatValue (Fin (- 2500000))
        (defaults\<lparr>numberFormat := defaultNumberFormat\<lparr>abbreviate := True, decimals := 1\<rparr>\<rparr>)
     = Inr ''--2,5M''
   \<and> formatValue (Fin 1500)
        (defaults\<lparr>numberFormat := defaultNumberFormat\<lparr>abbreviate := True, decimals := 1\<rparr>\<rparr>)
     = Inr ''1,5K''"
  by code_simp

section \<open>The default easing curve\<close>

text \<open>
  C1. The claim asks for a defined fallback curve. The table of easing functions has
  exactly its nine keys and no key \<open>easeOutCubic\<close>, which is both the default effect
  and the fallback of the lookup; with the default configuration the closure holds no
  easing function and its first frame throws a TypeError.
\<close>

theorem default_effect_has_no_curve:
  "dom (easingFunctions M) =
     {''linear'', ''slow'', ''fast'', ''bounce'', ''elastic'', ''steps'', ''smooth'', ''dramatic'',
      ''wave''}
   \<and> easingFunctions M (effect defaults) = None
   \<and> easingFunctions M ''easeOutCubic'' = None
   \<and> (case animateElement defaults M
              \<lparr>textContent = ''1,234'', dataset = [''targetValue'' \<mapsto> ''1234'', ''animated'' \<mapsto> ''false'']\<rparr>
              noOptions (Fin 0) of
         (element, events, None) \<Rightarrow> False
       | (element, events, Some a) \<Rightarrow>
           a_easingFunction a = None \<and> animate a (Fin 16) element = Inl TypeError)"
proof -
  have d: "dom (easingFunctions M) =
     {''linear'', ''slow'', ''fast'', ''bounce'', ''elastic'', ''steps'', ''smooth'', ''dramatic'',
      ''wave''}"
    unfolding easingFunctions_def dom_map_of_conv_image_fst by auto
  have r: "easingFunctions M (effect defaults) = None \<and> easingFunctions M ''easeOutCubic'' = None
   \<and> (case animateElement defaults M
              \<lparr>textContent = ''1,234'', dataset = [''targetValue'' \<mapsto> ''1234'', ''animated'' \<mapsto> ''false'']\<rparr>
              noOptions (Fin 0) of
         (element, events, None) \<Rightarrow> False
       | (element, events, Some a) \<Rightarrow>
           a_easingFunction a = None \<and> animate a (Fin 16) element = Inl TypeError)"
    by (simp add: easingFunctions_def defaults_def animateElement_def mergeConfig_def override_def
        noOptions_def animate_def Let_def)
  show ?thesis using d r by (rule conjI)
qed

section \<open>The final frame\<close>







end
